theory Spec2Isabelle
  imports Complex_Main "HOL-Library.AList" "HOL-Library.Multiset"
begin

section \<open>Topology optimizer (topology\_module/backend.py, topology\_module/ui.py)\<close>

text \<open>
  Python floats are modelled as real numbers: every arithmetic operation is exact.
  Exceptions are values of type \<open>error\<close>. The structural solver (anastruct) is an
  external collaborator: its state is a record holding what the optimizer writes
  into it, and its analysis results are a parameter of \<open>run_iteration\<close>.
\<close>

subsection \<open>Data model\<close>

datatype error = InvalidGeometryError | SolverError | KeyError | IndexError

type_synonym point = "real \<times> real"

text \<open>One dictionary of \<open>elements_metadata\<close>. A key that is absent from the
  dictionary (\<open>mirror_id\<close> before step 4, \<open>force_val\<close> before the first iteration)
  is \<open>None\<close>.\<close>

record member =
  el_id :: nat
  p1 :: point
  p2 :: point
  mid_x :: real
  mid_y :: real
  el_length :: real
  active :: bool
  strain_energy :: real
  mirror_id :: "nat option"
  force_val :: "real option"

text \<open>The solver side: the stiffness pair of an element, the supports and loads.\<close>

record element =
  EA :: real
  EI :: real

datatype support = Hinged | Roll | Fixed

record system_elements =
  EA_default :: real
  EI_default :: real
  element_map :: "(nat \<times> element) list"
  node_map :: "(nat \<times> point) list"
  supports :: "(support \<times> nat option) list"
  loads :: "(nat option \<times> real) list"

record section_params =
  sec_B :: real
  sec_D :: real
  sec_tw :: real
  sec_tf :: real

record optimizer =
  ss :: system_elements
  elements_metadata :: "member list"
  load_node_id :: "nat option"
  E_active :: real
  E_passive :: real

subsection \<open>Section properties\<close>

definition calculate_i_section_properties :: "real \<Rightarrow> real \<Rightarrow> real \<Rightarrow> real \<Rightarrow> real \<times> real" where
  "calculate_i_section_properties B D tw tf =
     (let area = (2 * B * tf) + ((D - 2 * tf) * tw);
          Ixx = (1 / 12) * (B * D ^ 3) - (1 / 12) * ((B - tw) * (D - 2 * tf) ^ 3)
      in (area, Ixx))"

subsection \<open>Ground structure\<close>

definition x_divs :: nat where "x_divs = 8"
definition y_divs :: nat where "y_divs = 3"

text \<open>\<open>round(x, 3)\<close>: to the nearest multiple of 1/1000, a tie going to the even one.\<close>

definition round3 :: "real \<Rightarrow> real" where
  "round3 x =
     (let y = x * 1000; f = \<lfloor>y\<rfloor>; d = y - of_int f
      in of_int (if d < 1 / 2 then f else if 1 / 2 < d then f + 1
                 else if even f then f else f + 1) / 1000)"

definition hypot :: "real \<Rightarrow> real \<Rightarrow> real" where
  "hypot a b = sqrt (a\<^sup>2 + b\<^sup>2)"

definition grid_nodes :: "real \<Rightarrow> real \<Rightarrow> point list" where
  "grid_nodes span' height =
     (let dx = span' / real x_divs; dy = height / real y_divs
      in concat (map (\<lambda>i. map (\<lambda>j. (round3 (real i * dx), round3 (real j * dy)))
                               [0..<y_divs + 1])
                     [0..<x_divs + 1]))"

text \<open>\<open>itertools.combinations(nodes, 2)\<close>, in its order.\<close>

fun combinations2 :: "'a list \<Rightarrow> ('a \<times> 'a) list" where
  "combinations2 [] = []"
| "combinations2 (x # xs) = map (Pair x) xs @ combinations2 xs"

definition system_elements_new :: "real \<Rightarrow> real \<Rightarrow> system_elements" where
  "system_elements_new ea ei =
     \<lparr>EA_default = ea, EI_default = ei, element_map = [], node_map = [],
      supports = [], loads = []\<rparr>"

text \<open>The solver's \<open>add_element\<close>: the new element takes the next id and the default
  stiffness, and a vertex not seen before becomes a node with the next node id.\<close>

definition add_node :: "point \<Rightarrow> (nat \<times> point) list \<Rightarrow> (nat \<times> point) list" where
  "add_node v nm = (if v \<in> snd ` set nm then nm else nm @ [(length nm + 1, v)])"

definition add_element :: "point \<Rightarrow> point \<Rightarrow> system_elements \<Rightarrow> system_elements" where
  "add_element a b s =
     s\<lparr>element_map := element_map s @
          [(length (element_map s) + 1, \<lparr>EA = EA_default s, EI = EI_default s\<rparr>)],
       node_map := add_node b (add_node a (node_map s))\<rparr>"

definition new_member :: "nat \<Rightarrow> point \<Rightarrow> point \<Rightarrow> real \<Rightarrow> member" where
  "new_member k a b dist' =
     \<lparr>el_id = k, p1 = a, p2 = b,
      mid_x = (fst a + fst b) / 2, mid_y = (snd a + snd b) / 2,
      el_length = dist', active = True, strain_energy = 0,
      mirror_id = None, force_val = None\<rparr>"

text \<open>Step 3 of \<open>initialize_structure\<close>: the loop over the node pairs.\<close>

fun connect_nodes ::
  "real \<Rightarrow> (point \<times> point) list \<Rightarrow> system_elements \<times> member list
     \<Rightarrow> system_elements \<times> member list" where
  "connect_nodes max_dist [] acc = acc"
| "connect_nodes max_dist ((a, b) # ps) (s, ms) =
     (let dist' = hypot (fst b - fst a) (snd b - snd a)
      in if 1 / 1000 < dist' \<and> dist' \<le> max_dist
         then (let s' = add_element a b s;
                   k = length (element_map s')
               in connect_nodes max_dist ps (s', ms @ [new_member k a b dist']))
         else connect_nodes max_dist ps (s, ms))"

subsection \<open>Symmetry map\<close>

text \<open>The inner search of step 4: the first member right of the centre line whose
  midpoint is within 0.1 of the target.\<close>

fun find_twin :: "real \<Rightarrow> real \<Rightarrow> real \<Rightarrow> member list \<Rightarrow> nat option" where
  "find_twin c tx ty [] = None"
| "find_twin c tx ty (q # qs) =
     (if c < mid_x q \<and> hypot (mid_x q - tx) (mid_y q - ty) < 1 / 10
      then Some (el_id q) else find_twin c tx ty qs)"

text \<open>Step 4. The search reads only \<open>mid_x\<close>, \<open>mid_y\<close> and \<open>id\<close>, which the loop
  does not write, so it runs on the list as it was before the loop.\<close>

definition map_symmetry :: "real \<Rightarrow> member list \<Rightarrow> member list" where
  "map_symmetry span' ms =
     (let center_line = span' / 2
      in map (\<lambda>el. if mid_x el < center_line
                    then el\<lparr>mirror_id := find_twin center_line (span' - mid_x el) (mid_y el) ms\<rparr>
                    else el\<lparr>mirror_id := None\<rparr>) ms)"

subsection \<open>Supports and load\<close>

text \<open>\<open>get_nid\<close>: the first node at the least distance; \<open>md\<close> starts at infinity
  (\<open>None\<close>).\<close>

fun get_nid_loop ::
  "real \<Rightarrow> real \<Rightarrow> (nat \<times> point) list \<Rightarrow> real option \<Rightarrow> nat option \<Rightarrow> nat option" where
  "get_nid_loop x y [] md best = best"
| "get_nid_loop x y ((nid, v) # ns) md best =
     (let d = hypot (fst v - x) (snd v - y)
      in if (case md of None \<Rightarrow> True | Some m \<Rightarrow> d < m)
         then get_nid_loop x y ns (Some d) (Some nid)
         else get_nid_loop x y ns md best)"

definition get_nid :: "system_elements \<Rightarrow> real \<Rightarrow> real \<Rightarrow> nat option" where
  "get_nid s x y = get_nid_loop x y (node_map s) None None"

definition add_support :: "support \<Rightarrow> nat option \<Rightarrow> system_elements \<Rightarrow> system_elements" where
  "add_support kind nid s = s\<lparr>supports := supports s @ [(kind, nid)]\<rparr>"

definition point_load :: "nat option \<Rightarrow> real \<Rightarrow> system_elements \<Rightarrow> system_elements" where
  "point_load nid fy s = s\<lparr>loads := loads s @ [(nid, fy)]\<rparr>"

definition apply_supports ::
  "string \<Rightarrow> nat option \<Rightarrow> nat option \<Rightarrow> system_elements \<Rightarrow> system_elements" where
  "apply_supports support_type id_L id_R s =
     (if support_type = ''Pinned-Roller'' then add_support Roll id_R (add_support Hinged id_L s)
      else if support_type = ''Fixed-Fixed'' then add_support Fixed id_R (add_support Fixed id_L s)
      else if support_type = ''Pinned-Pinned'' then add_support Hinged id_R (add_support Hinged id_L s)
      else s)"

subsection \<open>initialize\_structure\<close>

definition initialize_structure ::
  "real \<Rightarrow> real \<Rightarrow> real \<Rightarrow> string \<Rightarrow> real \<Rightarrow> section_params \<Rightarrow> error + optimizer" where
  "initialize_structure span' height load_kn support_type E_GPa sp =
     (let (A, I) = calculate_i_section_properties (sec_B sp) (sec_D sp) (sec_tw sp) (sec_tf sp);
          e_active = E_GPa * 10 ^ 9;
          s0 = system_elements_new (e_active * A) (e_active * I);
          nodes = grid_nodes span' height;
          dx = span' / real x_divs;
          max_dist = dx * (16 / 10);
          (s1, ms) = connect_nodes max_dist (combinations2 nodes) (s0, []);
          ms' = map_symmetry span' ms;
          id_L = get_nid s1 0 0;
          id_R = get_nid s1 span' 0;
          s2 = apply_supports support_type id_L id_R s1;
          load_node = get_nid s2 (span' / 2) height;
          s3 = point_load load_node (- load_kn) s2
      in Inr \<lparr>ss = s3, elements_metadata = ms', load_node_id = load_node,
               E_active = e_active, E_passive = 1\<rparr>)"

subsection \<open>run\_iteration\<close>

text \<open>What \<open>get_element_results\<close> returns for one element, as far as step B reads it:
  the entry \<open>N\<close> (no such key, \<open>None\<close>, one number, or a list whose entries may be
  \<open>None\<close>) and the entries \<open>Nmin\<close> and \<open>Nmax\<close> (\<open>None\<close> for a missing key as for the
  value \<open>None\<close>: step B reads both as 0).\<close>

datatype axial = Absent | NoneVal | Scalar real | Distribution "real option list"

record element_results =
  res_N :: axial
  res_Nmin :: "real option"
  res_Nmax :: "real option"

definition element_force :: "element_results \<Rightarrow> real" where
  "element_force res =
     (case res_N res of
        NoneVal \<Rightarrow>
          (let n_min = (case res_Nmin res of None \<Rightarrow> 0 | Some v \<Rightarrow> v);
               n_max = (case res_Nmax res of None \<Rightarrow> 0 | Some v \<Rightarrow> v)
           in max \<bar>n_min\<bar> \<bar>n_max\<bar>)
      | Distribution raw_n \<Rightarrow>
          (let valid_forces = map (\<lambda>x. \<bar>the x\<bar>) (filter (\<lambda>x. x \<noteq> None) raw_n)
           in case valid_forces of [] \<Rightarrow> 0 | v # vs \<Rightarrow> fold max vs v)
      | Scalar raw_n \<Rightarrow> \<bar>raw_n\<bar>
      | Absent \<Rightarrow> \<bar>0\<bar>)"

text \<open>Step B, for one member of \<open>active_list\<close>.\<close>

definition evaluate_member :: "(nat \<Rightarrow> element_results) \<Rightarrow> member \<Rightarrow> member" where
  "evaluate_member results el =
     (let force = element_force (results (el_id el));
          energy = force\<^sup>2 * el_length el
      in el\<lparr>force_val := Some force, strain_energy := energy\<rparr>)"

text \<open>Step B. \<open>active_list\<close> holds the dictionaries of \<open>elements_metadata\<close> themselves,
  so the loop over it writes into \<open>elements_metadata\<close>, at the active members.\<close>

definition evaluate_energy :: "(nat \<Rightarrow> element_results) \<Rightarrow> member list \<Rightarrow> member list" where
  "evaluate_energy results ms = map (\<lambda>el. if active el then evaluate_member results el else el) ms"

text \<open>\<open>active_list\<close>, as the positions of its dictionaries in \<open>elements_metadata\<close>.\<close>

definition active_list :: "member list \<Rightarrow> nat list" where
  "active_list ms = filter (\<lambda>i. active (ms ! i)) [0..<length ms]"

text \<open>\<open>next((x for x in elements_metadata if x["id"] == k), None)\<close>, as a position.\<close>

fun lookup_id :: "nat \<Rightarrow> member list \<Rightarrow> nat option" where
  "lookup_id k [] = None"
| "lookup_id k (x # xs) = (if el_id x = k then Some 0 else map_option Suc (lookup_id k xs))"

text \<open>Step C, for the member at position \<open>i\<close>.\<close>

definition symmetrize_one :: "member list \<Rightarrow> nat \<Rightarrow> member list" where
  "symmetrize_one ms i =
     (case mirror_id (ms ! i) of
        None \<Rightarrow> ms
      | Some k \<Rightarrow>
          (case lookup_id k ms of
             None \<Rightarrow> ms
           | Some t \<Rightarrow>
               if active (ms ! t)
               then (let avg_energy = (strain_energy (ms ! i) + strain_energy (ms ! t)) / 2;
                         ms1 = ms[i := (ms ! i)\<lparr>strain_energy := avg_energy\<rparr>]
                     in ms1[t := (ms1 ! t)\<lparr>strain_energy := avg_energy\<rparr>])
               else ms))"

definition symmetrize :: "nat list \<Rightarrow> member list \<Rightarrow> member list" where
  "symmetrize al ms = fold (\<lambda>i m. symmetrize_one m i) al ms"

text \<open>Step D. \<open>int\<close> truncates towards zero; the list sort is stable.\<close>

definition py_int :: "real \<Rightarrow> int" where
  "py_int x = (if 0 \<le> x then \<lfloor>x\<rfloor> else \<lceil>x\<rceil>)"

definition removal_count :: "nat \<Rightarrow> real \<Rightarrow> int" where
  "removal_count n removal_ratio =
     (let c0 = py_int (real n * removal_ratio);
          c1 = (if c0 < 1 then 1 else c0)
      in if n < 15 then 0 else c1)"

definition sort_active :: "member list \<Rightarrow> nat list \<Rightarrow> nat list" where
  "sort_active ms al = sort_key (\<lambda>i. strain_energy (ms ! i)) al"

text \<open>Step E.\<close>

definition attenuate :: "element \<Rightarrow> element" where
  "attenuate e = e\<lparr>EA := EA e * (1 / 10 ^ 6), EI := EI e * (1 / 10 ^ 6)\<rparr>"

definition soft_kill :: "nat \<Rightarrow> (nat \<times> element) list \<Rightarrow> error + (nat \<times> element) list" where
  "soft_kill k em =
     (case map_of em k of
        None \<Rightarrow> Inl KeyError
      | Some e \<Rightarrow> Inr (AList.update k (attenuate e) em))"

text \<open>One pass of the loop \<open>for i in range(count_to_remove)\<close>.\<close>

definition kill_step ::
  "nat list \<Rightarrow> member list \<times> (nat \<times> element) list \<Rightarrow> nat
     \<Rightarrow> error + member list \<times> (nat \<times> element) list" where
  "kill_step al st i =
     (case st of (ms, em) \<Rightarrow>
        if length al \<le> i then Inl IndexError
        else
          (let target = al ! i;
               target_el = ms ! target;
               ms1 = ms[target := target_el\<lparr>active := False\<rparr>]
           in case soft_kill (el_id target_el) em of
                Inl e \<Rightarrow> Inl e
              | Inr em1 \<Rightarrow>
                  (case mirror_id target_el of
                     None \<Rightarrow> Inr (ms1, em1)
                   | Some k \<Rightarrow>
                       if k = 0 then Inr (ms1, em1)
                       else
                         (case lookup_id k ms1 of
                            None \<Rightarrow> Inr (ms1, em1)
                          | Some t \<Rightarrow>
                              if active (ms1 ! t)
                              then (case soft_kill (el_id (ms1 ! t)) em1 of
                                      Inl e \<Rightarrow> Inl e
                                    | Inr em2 \<Rightarrow>
                                        Inr (ms1[t := (ms1 ! t)\<lparr>active := False\<rparr>], em2))
                              else Inr (ms1, em1)))))"

fun soft_kill_loop ::
  "nat list \<Rightarrow> nat list \<Rightarrow> member list \<times> (nat \<times> element) list
     \<Rightarrow> error + member list \<times> (nat \<times> element) list" where
  "soft_kill_loop al [] st = Inr st"
| "soft_kill_loop al (i # is) st =
     (case kill_step al st i of
        Inl e \<Rightarrow> Inl e
      | Inr st' \<Rightarrow> soft_kill_loop al is st')"

text \<open>Step F.\<close>

record display =
  d_p1 :: point
  d_p2 :: point
  d_active :: bool
  d_force :: real
  d_max_force :: real

fun max_force_active :: "member list \<Rightarrow> real \<Rightarrow> error + real" where
  "max_force_active [] m = Inr m"
| "max_force_active (el # els) m =
     (if active el
      then (case force_val el of
              None \<Rightarrow> Inl KeyError
            | Some f \<Rightarrow> max_force_active els (if m < f then f else m))
      else max_force_active els m)"

definition display_of :: "real \<Rightarrow> member \<Rightarrow> display" where
  "display_of max_f_active el =
     \<lparr>d_p1 = p1 el, d_p2 = p2 el, d_active = active el,
      d_force = (case force_val el of None \<Rightarrow> 0 | Some f \<Rightarrow> f),
      d_max_force = max_f_active\<rparr>"

text \<open>\<open>run_iteration\<close>. The solver is a function from its state to an error or to the
  results of its elements. When an exception leaves the method, the model returns the
  error alone. The totals that are only printed are left out.\<close>

definition run_iteration ::
  "(system_elements \<Rightarrow> error + (nat \<Rightarrow> element_results)) \<Rightarrow> optimizer \<Rightarrow> nat \<Rightarrow> real
     \<Rightarrow> error + display list \<times> int \<times> optimizer" where
  "run_iteration solver opt iteration_num removal_ratio =
     (case solver (ss opt) of
        Inl e \<Rightarrow> Inl e
      | Inr results \<Rightarrow>
          (let al = active_list (elements_metadata opt);
               ms_b = evaluate_energy results (elements_metadata opt);
               ms_c = symmetrize al ms_b;
               al_sorted = sort_active ms_c al;
               count_to_remove = removal_count (length al_sorted) removal_ratio
           in case soft_kill_loop al_sorted [0..<nat count_to_remove]
                     (ms_c, element_map (ss opt)) of
                Inl e \<Rightarrow> Inl e
              | Inr (ms_e, em) \<Rightarrow>
                  (case max_force_active ms_e 0 of
                     Inl e \<Rightarrow> Inl e
                   | Inr max_f_active \<Rightarrow>
                       Inr (map (display_of max_f_active) ms_e,
                            int (length al_sorted) - count_to_remove,
                            opt\<lparr>ss := (ss opt)\<lparr>element_map := em\<rparr>,
                                elements_metadata := ms_e\<rparr>))))"

subsection \<open>The driver (ui.py)\<close>

text \<open>The status label, by the text it shows.\<close>

datatype status = Ready | Initializing | Iterating nat int | Converged | Stopped | Failed error

record app =
  app_optimizer :: optimizer
  is_running :: bool
  iteration :: nat
  lbl_status :: status

text \<open>One call of \<open>run_loop\<close>. In the last branch the method schedules its next call.\<close>

definition run_loop ::
  "(system_elements \<Rightarrow> error + (nat \<Rightarrow> element_results)) \<Rightarrow> app \<Rightarrow> app" where
  "run_loop solver a =
     (if \<not> is_running a then a
      else
        (let a1 = a\<lparr>iteration := iteration a + 1\<rparr>
         in case run_iteration solver (app_optimizer a1) (iteration a1) (2 / 100) of
              Inl e \<Rightarrow> a1\<lparr>is_running := False, lbl_status := Failed e\<rparr>
            | Inr (display_data, active_count, opt') \<Rightarrow>
                (let a2 = a1\<lparr>app_optimizer := opt',
                              lbl_status := Iterating (iteration a1) active_count\<rparr>
                 in if active_count < 25
                    then a2\<lparr>is_running := False, lbl_status := Converged\<rparr>
                    else a2)))"

definition stop_optimization :: "app \<Rightarrow> app" where
  "stop_optimization a = a\<lparr>is_running := False, lbl_status := Stopped\<rparr>"

text \<open>\<open>start_optimization\<close>, from the numbers of the entry fields.\<close>

definition start_optimization ::
  "(system_elements \<Rightarrow> error + (nat \<Rightarrow> element_results)) \<Rightarrow> app
     \<Rightarrow> real \<Rightarrow> real \<Rightarrow> real \<Rightarrow> real \<Rightarrow> real \<Rightarrow> real \<Rightarrow> real \<Rightarrow> real \<Rightarrow> string \<Rightarrow> error + app" where
  "start_optimization solver a span' height load_entry E B D tw tf support_type =
     (let load = load_entry * 1000;
          params = \<lparr>sec_B = B / 1000, sec_D = D / 1000, sec_tw = tw / 1000, sec_tf = tf / 1000\<rparr>
      in case initialize_structure span' height load support_type E params of
           Inl e \<Rightarrow> Inl e
         | Inr opt' \<Rightarrow>
             Inr (run_loop solver
                    (a\<lparr>lbl_status := Initializing, app_optimizer := opt',
                       is_running := True, iteration := 0\<rparr>)))"


subsection \<open>Auxiliary notions for the statements\<close>

text \<open>The member list after steps B and C, and \<open>active_list\<close> after the sort of step D.\<close>

definition symmetrized :: "(nat \<Rightarrow> element_results) \<Rightarrow> member list \<Rightarrow> member list" where
  "symmetrized results ms = symmetrize (active_list ms) (evaluate_energy results ms)"

definition ranked_active :: "(nat \<Rightarrow> element_results) \<Rightarrow> member list \<Rightarrow> nat list" where
  "ranked_active results ms = sort_active (symmetrized results ms) (active_list ms)"

text \<open>\<open>energy_variant ms m\<close>: the list \<open>m\<close> is \<open>ms\<close> up to the entries \<open>strain_energy\<close>
  and \<open>force_val\<close>.\<close>

definition energy_variant :: "member list \<Rightarrow> member list \<Rightarrow> bool" where
  "energy_variant ms m =
     (length m = length ms \<and>
      (\<forall>j<length ms. m ! j = (ms ! j)\<lparr>strain_energy := strain_energy (m ! j),
                                      force_val := force_val (m ! j)\<rparr>))"

text \<open>\<open>kill_rel\<close> relates the member list and the element map before and after a part
  of step E: the lists agree up to \<open>active\<close>, which is only ever cleared; the element map
  keeps its keys, every stiffness pair is attenuated some number of times, and at least
  once for a member that was deactivated.\<close>

definition kill_rel ::
  "member list \<times> (nat \<times> element) list \<Rightarrow> member list \<times> (nat \<times> element) list \<Rightarrow> bool" where
  "kill_rel st st' =
     (case st of (ms, em) \<Rightarrow> case st' of (ms', em') \<Rightarrow>
        length ms' = length ms \<and> map fst em' = map fst em \<and>
        (\<forall>j<length ms. ms' ! j = (ms ! j)\<lparr>active := active (ms' ! j)\<rparr> \<and>
                         (active (ms' ! j) \<longrightarrow> active (ms ! j))) \<and>
        (\<forall>k e. map_of em k = Some e \<longrightarrow> (\<exists>n. map_of em' k = Some ((attenuate ^^ n) e))) \<and>
        (\<forall>j<length ms. active (ms ! j) \<and> \<not> active (ms' ! j) \<longrightarrow>
           (\<exists>e n. map_of em (el_id (ms ! j)) = Some e \<and>
                  map_of em' (el_id (ms ! j)) = Some ((attenuate ^^ Suc n) e))))"

text \<open>\<open>one_directional ms\<close>: the member found under a mirror id has no mirror itself.
  \<open>mirror_owners ms k\<close>: the positions of the members whose mirror id is \<open>k\<close>.\<close>

definition one_directional :: "member list \<Rightarrow> bool" where
  "one_directional ms =
     list_all (\<lambda>m. case mirror_id m of
                     None \<Rightarrow> True
                   | Some k \<Rightarrow> (case lookup_id k ms of
                                 None \<Rightarrow> True
                               | Some t \<Rightarrow> mirror_id (ms ! t) = None)) ms"

definition mirror_owners :: "member list \<Rightarrow> nat \<Rightarrow> nat list" where
  "mirror_owners ms k = filter (\<lambda>j. mirror_id (ms ! j) = Some k) [0..<length ms]"

text \<open>The length test of step 3, for the node pair \<open>a\<close>, \<open>b\<close>.\<close>

definition within_reach :: "real \<Rightarrow> point \<Rightarrow> point \<Rightarrow> bool" where
  "within_reach max_dist a b =
     (1 / 1000 < hypot (fst b - fst a) (snd b - snd a) \<and>
      hypot (fst b - fst a) (snd b - snd a) \<le> max_dist)"


subsection \<open>Concrete states\<close>

text \<open>A member with a given id, end points, length and mirror.\<close>

definition member_of :: "nat \<Rightarrow> point \<Rightarrow> point \<Rightarrow> real \<Rightarrow> nat option \<Rightarrow> member" where
  "member_of k a b len m = (new_member k a b len)\<lparr>mirror_id := m\<rparr>"

text \<open>Part of the ground structure of a domain of span 32 and height 9 (grid spacing 4
  by 3): the cell at the left end with its two diagonals, the cell at the right end with
  its two diagonals, and the three vertical members on the centre line; before step 4.\<close>

definition cells_raw :: "member list" where
  "cells_raw =
     [new_member 1 (0, 0) (4, 3) 5, new_member 2 (0, 3) (4, 0) 5,
      new_member 3 (0, 0) (4, 0) 4, new_member 4 (0, 3) (4, 3) 4,
      new_member 5 (0, 0) (0, 3) 3, new_member 6 (4, 0) (4, 3) 3,
      new_member 7 (16, 0) (16, 3) 3, new_member 8 (16, 3) (16, 6) 3,
      new_member 9 (16, 6) (16, 9) 3,
      new_member 10 (28, 0) (32, 3) 5, new_member 11 (28, 3) (32, 0) 5,
      new_member 12 (28, 0) (32, 0) 4, new_member 13 (28, 3) (32, 3) 4,
      new_member 14 (28, 0) (28, 3) 3, new_member 15 (32, 0) (32, 3) 3]"

text \<open>The same members after step 4: both diagonals of the left cell have the mirror 10.\<close>

definition cells :: "member list" where
  "cells =
     [member_of 1 (0, 0) (4, 3) 5 (Some 10), member_of 2 (0, 3) (4, 0) 5 (Some 10),
      member_of 3 (0, 0) (4, 0) 4 (Some 12), member_of 4 (0, 3) (4, 3) 4 (Some 13),
      member_of 5 (0, 0) (0, 3) 3 (Some 15), member_of 6 (4, 0) (4, 3) 3 (Some 14),
      member_of 7 (16, 0) (16, 3) 3 None, member_of 8 (16, 3) (16, 6) 3 None,
      member_of 9 (16, 6) (16, 9) 3 None,
      member_of 10 (28, 0) (32, 3) 5 None, member_of 11 (28, 3) (32, 0) 5 None,
      member_of 12 (28, 0) (32, 0) 4 None, member_of 13 (28, 3) (32, 3) 4 None,
      member_of 14 (28, 0) (28, 3) 3 None, member_of 15 (32, 0) (32, 3) 3 None]"

text \<open>Solver results for these members: a distribution with the greatest magnitude 3
  for member 1, no entry \<open>N\<close> for member 2, nothing at all for member 10, and the extremes
  \<open>- 10\<close> and 4 for every other member.\<close>

definition cells_results :: "nat \<Rightarrow> element_results" where
  "cells_results k =
     (if k = 1 then \<lparr>res_N = Distribution [Some 1, None, Some (- 3)], res_Nmin = None, res_Nmax = None\<rparr>
      else if k = 2 then \<lparr>res_N = Absent, res_Nmin = None, res_Nmax = None\<rparr>
      else if k = 10 then \<lparr>res_N = NoneVal, res_Nmin = None, res_Nmax = None\<rparr>
      else \<lparr>res_N = NoneVal, res_Nmin = Some (- 10), res_Nmax = Some 4\<rparr>)"

definition optimizer_of :: "member list \<Rightarrow> optimizer" where
  "optimizer_of ms =
     \<lparr>ss = (system_elements_new 1 1)\<lparr>element_map := map (\<lambda>el. (el_id el, \<lparr>EA = 1, EI = 1\<rparr>)) ms\<rparr>,
      elements_metadata = ms, load_node_id = None, E_active = 1, E_passive = 1\<rparr>"

text \<open>A left member 1 with its mirror 2 and \<open>n\<close> members on the centre line.\<close>

definition pair_and_centre :: "nat \<Rightarrow> member list" where
  "pair_and_centre n =
     [member_of 1 (0, 0) (4, 0) 4 (Some 2), member_of 2 (28, 0) (32, 0) 4 None]
     @ map (\<lambda>k. member_of k (16, 0) (16, 3) 3 None) [3..<n + 3]"

text \<open>Solver results: no force in members 1 and 2, the force 1 in all others.\<close>

definition pair_results :: "nat \<Rightarrow> element_results" where
  "pair_results k = \<lparr>res_N = Scalar (if k \<le> 2 then 0 else 1), res_Nmin = None, res_Nmax = None\<rparr>"

text \<open>The application right after \<open>initialize_structure\<close>, about to call \<open>run_loop\<close>.\<close>

definition app_of :: "member list \<Rightarrow> app" where
  "app_of ms =
     \<lparr>app_optimizer = optimizer_of ms, is_running = True, iteration = 0,
      lbl_status = Initializing\<rparr>"


section \<open>Basic facts\<close>

lemma lookup_id_Some: "lookup_id k ms = Some t \<Longrightarrow> t < length ms \<and> el_id (ms ! t) = k"
proof (induction ms arbitrary: t)
  case Nil
  then show ?case by simp
next
  case (Cons a ms)
  show ?case
  proof (cases "el_id a = k")
    case True
    with Cons.prems show ?thesis by simp
  next
    case False
    with Cons.prems obtain t' where "lookup_id k ms = Some t'" "t = Suc t'" by auto
    with Cons.IH[of t'] show ?thesis by simp
  qed
qed

lemma lookup_id_cong: "map el_id ms = map el_id ms' \<Longrightarrow> lookup_id k ms = lookup_id k ms'"
proof (induction ms arbitrary: ms')
  case Nil
  then show ?case by simp
next
  case (Cons a ms)
  then obtain b ms'' where ms': "ms' = b # ms''" and ab: "el_id a = el_id b"
    and rest: "map el_id ms = map el_id ms''"
    by (cases ms') auto
  from Cons.IH[OF rest] ab show ?case by (simp add: ms')
qed


section \<open>The ground structure and the symmetry map\<close>

subsection \<open>Rounding and the grid\<close>








subsection \<open>Node pairs\<close>

lemma combinations2_set: "(a, b) \<in> set (combinations2 xs) \<Longrightarrow> a \<in> set xs \<and> b \<in> set xs"
  by (induction xs) auto

lemma combinations2_neq: "distinct xs \<Longrightarrow> (a, b) \<in> set (combinations2 xs) \<Longrightarrow> a \<noteq> b"
  by (induction xs) (auto dest: combinations2_set)



subsection \<open>The loop of step 3\<close>

lemma connect_nodes_Cons:
  "connect_nodes md ((a, b) # ps) (s, ms) =
     (if within_reach md a b
      then connect_nodes md ps
             (add_element a b s,
              ms @ [new_member (length (element_map (add_element a b s))) a b
                      (hypot (fst b - fst a) (snd b - snd a))])
      else connect_nodes md ps (s, ms))"
  by (simp only: connect_nodes.simps Let_def within_reach_def)

lemma new_member_fields:
  "p1 (new_member k a b d) = a" "p2 (new_member k a b d) = b" "el_id (new_member k a b d) = k"
  "el_length (new_member k a b d) = d" "active (new_member k a b d)"
  "mid_x (new_member k a b d) = (fst a + fst b) / 2" "mid_y (new_member k a b d) = (snd a + snd b) / 2"
  "mirror_id (new_member k a b d) = None"
  by (simp_all add: new_member_def)



lemma connect_nodes_ids:
  "length (element_map s) = length ms \<Longrightarrow> map el_id ms = [1..<length ms + 1] \<Longrightarrow>
   map fst (element_map s) = [1..<length ms + 1] \<Longrightarrow>
     map el_id (snd (connect_nodes md ps (s, ms))) = [1..<length (snd (connect_nodes md ps (s, ms))) + 1] \<and>
     map fst (element_map (fst (connect_nodes md ps (s, ms))))
       = [1..<length (snd (connect_nodes md ps (s, ms))) + 1]"
proof (induction ps arbitrary: s ms)
  case Nil
  then show ?case by simp
next
  case (Cons p ps)
  obtain a b where p: "p = (a, b)" by (cases p)
  show ?case
  proof (cases "within_reach md a b")
    case True
    let ?s' = "add_element a b s"
    let ?ms' = "ms @ [new_member (length (element_map ?s')) a b (hypot (fst b - fst a) (snd b - snd a))]"
    have l: "length (element_map ?s') = length ?ms'" using Cons.prems(1) by (simp add: add_element_def)
    have i: "map el_id ?ms' = [1..<length ?ms' + 1]"
      using Cons.prems(1,2) by (simp add: add_element_def new_member_fields)
    have f: "map fst (element_map ?s') = [1..<length ?ms' + 1]"
      using Cons.prems(1,3) by (simp add: add_element_def)
    from Cons.IH[OF l i f] True show ?thesis
      unfolding p connect_nodes_Cons by (simp only: if_True)
  next
    case False
    from Cons.IH[OF Cons.prems] False show ?thesis
      unfolding p connect_nodes_Cons by (simp only: if_False)
  qed
qed


subsection \<open>Distances\<close>



lemma hypot_less_iff: "0 < c \<Longrightarrow> hypot a b < c \<longleftrightarrow> a\<^sup>2 + b\<^sup>2 < c\<^sup>2"
proof -
  assume c: "0 < c"
  have "sqrt (a\<^sup>2 + b\<^sup>2) < c \<longleftrightarrow> sqrt (a\<^sup>2 + b\<^sup>2) < sqrt (c\<^sup>2)" using c by simp
  also have "\<dots> \<longleftrightarrow> a\<^sup>2 + b\<^sup>2 < c\<^sup>2" by (rule real_sqrt_less_iff)
  finally show ?thesis by (simp add: hypot_def)
qed



subsection \<open>Step 4 member by member\<close>

lemma map_symmetry_nth:
  "i < length ms \<Longrightarrow>
     map_symmetry span' ms ! i =
       (if mid_x (ms ! i) < span' / 2
        then (ms ! i)\<lparr>mirror_id := find_twin (span' / 2) (span' - mid_x (ms ! i)) (mid_y (ms ! i)) ms\<rparr>
        else (ms ! i)\<lparr>mirror_id := None\<rparr>)"
  by (simp add: map_symmetry_def Let_def)

lemma map_symmetry_length: "length (map_symmetry span' ms) = length ms"
  by (simp add: map_symmetry_def Let_def)

lemma map_symmetry_fields:
  "map el_id (map_symmetry span' ms) = map el_id ms"
  "map (\<lambda>m. (p1 m, p2 m)) (map_symmetry span' ms) = map (\<lambda>m. (p1 m, p2 m)) ms"
  "map el_length (map_symmetry span' ms) = map el_length ms"
  "map mid_x (map_symmetry span' ms) = map mid_x ms"
  "map mid_y (map_symmetry span' ms) = map mid_y ms"
  "map active (map_symmetry span' ms) = map active ms"
  by (simp_all add: map_symmetry_def Let_def comp_def if_distrib cong: if_cong)


lemma map_symmetry_nth_fields:
  assumes "i < length ms"
  shows "el_id (map_symmetry span' ms ! i) = el_id (ms ! i)"
    "mid_x (map_symmetry span' ms ! i) = mid_x (ms ! i)"
    "mid_y (map_symmetry span' ms ! i) = mid_y (ms ! i)"
  using assms by (simp_all add: map_symmetry_nth)

subsection \<open>The result of initialize\_structure\<close>

lemma apply_supports_fields:
  "EA_default (apply_supports st l r s) = EA_default s"
  "EI_default (apply_supports st l r s) = EI_default s"
  "element_map (apply_supports st l r s) = element_map s"
  by (simp_all add: apply_supports_def add_support_def)


lemma initialize_structure_ids:
  assumes init: "initialize_structure span' height load_kn support_type E_GPa sp = Inr opt"
  shows "map el_id (elements_metadata opt) = [1..<length (elements_metadata opt) + 1]"
    and "map fst (element_map (ss opt)) = [1..<length (elements_metadata opt) + 1]"
proof -
  let ?s0 = "system_elements_new
        (E_GPa * 10 ^ 9 * fst (calculate_i_section_properties (sec_B sp) (sec_D sp) (sec_tw sp) (sec_tf sp)))
        (E_GPa * 10 ^ 9 * snd (calculate_i_section_properties (sec_B sp) (sec_D sp) (sec_tw sp) (sec_tf sp)))"
  let ?c = "connect_nodes (span' / real x_divs * (16 / 10)) (combinations2 (grid_nodes span' height)) (?s0, [])"
  from init have ms: "elements_metadata opt = map_symmetry span' (snd ?c)"
    and em: "element_map (ss opt) = element_map (fst ?c)"
    by (auto simp: initialize_structure_def Let_def split_beta point_load_def apply_supports_fields)
  have e: "element_map ?s0 = []" by (simp add: system_elements_new_def)
  from connect_nodes_ids[of ?s0 "[]"] e
  have "map el_id (snd ?c) = [1..<length (snd ?c) + 1] \<and>
        map fst (element_map (fst ?c)) = [1..<length (snd ?c) + 1]" by simp
  then show "map el_id (elements_metadata opt) = [1..<length (elements_metadata opt) + 1]"
    and "map fst (element_map (ss opt)) = [1..<length (elements_metadata opt) + 1]"
    unfolding ms em by (simp_all add: map_symmetry_fields(1) map_symmetry_length)
qed


subsection \<open>The mirror search\<close>

lemma find_twin_Some:
  "find_twin c tx ty ms = Some k \<Longrightarrow>
     \<exists>q\<in>set ms. el_id q = k \<and> c < mid_x q \<and> hypot (mid_x q - tx) (mid_y q - ty) < 1 / 10"
proof (induction ms)
  case Nil
  then show ?case by simp
next
  case (Cons q qs)
  show ?case
  proof (cases "c < mid_x q \<and> hypot (mid_x q - tx) (mid_y q - ty) < 1 / 10")
    case True
    with Cons.prems have "el_id q = k" by (simp del: One_nat_def)
    with True show ?thesis by (intro bexI[of _ q]) simp_all
  next
    case False
    with Cons.prems have "find_twin c tx ty qs = Some k" by auto
    from Cons.IH[OF this] show ?thesis by auto
  qed
qed

lemma find_twin_Cons_sq:
  "find_twin c tx ty (q # qs) =
     (if c < mid_x q \<and> (mid_x q - tx)\<^sup>2 + (mid_y q - ty)\<^sup>2 < 1 / 100
      then Some (el_id q) else find_twin c tx ty qs)"
  using hypot_less_iff[of "1 / 10" "mid_x q - tx" "mid_y q - ty"]
  by (simp add: power_divide)

lemma lookup_id_exists: "k \<in> set (map el_id ms) \<Longrightarrow> \<exists>t. lookup_id k ms = Some t"
  by (induction ms) auto

lemma distinct_ids_index:
  assumes "distinct (map el_id ms)" "a < length ms" "b < length ms" "el_id (ms ! a) = el_id (ms ! b)"
  shows "a = b"
proof -
  have "map el_id ms ! a = map el_id ms ! b" using assms(2,3,4) by simp
  moreover have "a < length (map el_id ms)" "b < length (map el_id ms)" using assms(2,3) by simp_all
  ultimately show ?thesis using nth_eq_iff_index_eq[OF assms(1)] by blast
qed

text \<open>What step 4 gives a member that gets a mirror.\<close>

lemma map_symmetry_mirror:
  assumes d: "distinct (map el_id ms)" and i: "i < length ms"
    and mir: "mirror_id (map_symmetry span' ms ! i) = Some k"
  shows "\<exists>t. lookup_id k (map_symmetry span' ms) = Some t \<and> t < length ms \<and> t \<noteq> i \<and>
             k \<noteq> el_id (ms ! i) \<and> mid_x (ms ! i) < span' / 2 \<and> span' / 2 < mid_x (ms ! t) \<and>
             hypot (mid_x (ms ! t) - (span' - mid_x (ms ! i))) (mid_y (ms ! t) - mid_y (ms ! i)) < 1 / 10"
proof -
  from mir i have left: "mid_x (ms ! i) < span' / 2"
    and ft: "find_twin (span' / 2) (span' - mid_x (ms ! i)) (mid_y (ms ! i)) ms = Some k"
    by (simp_all add: map_symmetry_nth split: if_splits)
  from find_twin_Some[OF ft] obtain q where q: "q \<in> set ms" "el_id q = k" "span' / 2 < mid_x q"
    "hypot (mid_x q - (span' - mid_x (ms ! i))) (mid_y q - mid_y (ms ! i)) < 1 / 10" by blast
  from q(1) obtain t where t: "t < length ms" "ms ! t = q" by (auto simp: in_set_conv_nth)
  from q(1,2) have "k \<in> set (map el_id ms)" by force
  from lookup_id_exists[OF this] obtain t' where lk: "lookup_id k ms = Some t'" by blast
  from lookup_id_Some[OF lk] have t': "t' < length ms" "el_id (ms ! t') = k" by simp_all
  have "t' = t" using distinct_ids_index[OF d t'(1) t(1)] t' t q(2) by simp
  with lk have lk2: "lookup_id k (map_symmetry span' ms) = Some t"
    using lookup_id_cong[OF map_symmetry_fields(1), of k span' ms] by simp
  from left q(3) t(2) have ti: "t \<noteq> i" by auto
  have "k \<noteq> el_id (ms ! i)"
  proof
    assume "k = el_id (ms ! i)"
    then have "t = i" using distinct_ids_index[OF d t(1) i] t q(2) by simp
    with ti show False by simp
  qed
  with lk2 t ti left q(3,4) show ?thesis by auto
qed

lemma map_symmetry_one_directional:
  assumes d: "distinct (map el_id ms)"
  shows "one_directional (map_symmetry span' ms)"
proof -
  have "case mirror_id (map_symmetry span' ms ! j) of
          None \<Rightarrow> True
        | Some k \<Rightarrow> (case lookup_id k (map_symmetry span' ms) of
                      None \<Rightarrow> True
                    | Some t \<Rightarrow> mirror_id (map_symmetry span' ms ! t) = None)"
    if j: "j < length ms" for j
  proof (cases "mirror_id (map_symmetry span' ms ! j)")
    case None
    then show ?thesis by simp
  next
    case (Some k)
    from map_symmetry_mirror[OF d j Some] obtain t where
      lk: "lookup_id k (map_symmetry span' ms) = Some t" and t: "t < length ms"
      and r: "span' / 2 < mid_x (ms ! t)" by blast
    from r t have "mirror_id (map_symmetry span' ms ! t) = None" by (simp add: map_symmetry_nth)
    with Some lk show ?thesis by simp
  qed
  then show ?thesis by (simp add: one_directional_def list_all_length map_symmetry_length)
qed

text \<open>Step 4 on the cells of span 32: both diagonals of the left cell get the mirror 10.\<close>

lemma cells_from_step_4: "map_symmetry 32 cells_raw = cells"
  by (simp add: map_symmetry_def cells_raw_def cells_def member_of_def new_member_def
        find_twin_Cons_sq power2_eq_square del: find_twin.simps)


section \<open>Steps B to D\<close>

lemma energy_variant_refl: "energy_variant ms ms"
  by (simp add: energy_variant_def)

lemma energy_variant_length: "energy_variant ms m \<Longrightarrow> length m = length ms"
  by (simp add: energy_variant_def)

lemma energy_variant_nth:
  "energy_variant ms m \<Longrightarrow> j < length ms \<Longrightarrow>
     m ! j = (ms ! j)\<lparr>strain_energy := strain_energy (m ! j), force_val := force_val (m ! j)\<rparr>"
  by (simp add: energy_variant_def)

lemma energy_variant_fields:
  assumes "energy_variant ms m" "j < length ms"
  shows "el_id (m ! j) = el_id (ms ! j)" "mirror_id (m ! j) = mirror_id (ms ! j)"
    "active (m ! j) = active (ms ! j)" "el_length (m ! j) = el_length (ms ! j)"
    "p1 (m ! j) = p1 (ms ! j)" "p2 (m ! j) = p2 (ms ! j)"
    "mid_x (m ! j) = mid_x (ms ! j)" "mid_y (m ! j) = mid_y (ms ! j)"
proof -
  let ?r = "(ms ! j)\<lparr>strain_energy := strain_energy (m ! j), force_val := force_val (m ! j)\<rparr>"
  have e: "m ! j = ?r" by (rule energy_variant_nth[OF assms])
  have "el_id (m ! j) = el_id ?r" using e by simp
  then show "el_id (m ! j) = el_id (ms ! j)" by simp
  have "mirror_id (m ! j) = mirror_id ?r" using e by simp
  then show "mirror_id (m ! j) = mirror_id (ms ! j)" by simp
  have "active (m ! j) = active ?r" using e by simp
  then show "active (m ! j) = active (ms ! j)" by simp
  have "el_length (m ! j) = el_length ?r" using e by simp
  then show "el_length (m ! j) = el_length (ms ! j)" by simp
  have "p1 (m ! j) = p1 ?r" using e by simp
  then show "p1 (m ! j) = p1 (ms ! j)" by simp
  have "p2 (m ! j) = p2 ?r" using e by simp
  then show "p2 (m ! j) = p2 (ms ! j)" by simp
  have "mid_x (m ! j) = mid_x ?r" using e by simp
  then show "mid_x (m ! j) = mid_x (ms ! j)" by simp
  have "mid_y (m ! j) = mid_y ?r" using e by simp
  then show "mid_y (m ! j) = mid_y (ms ! j)" by simp
qed

lemma energy_variant_ids:
  assumes "energy_variant ms m"
  shows "map el_id m = map el_id ms"
  by (rule nth_equalityI)
     (simp_all add: energy_variant_length[OF assms] energy_variant_fields(1)[OF assms])

lemma energy_variant_trans:
  assumes a: "energy_variant ms m" and b: "energy_variant m m'"
  shows "energy_variant ms m'"
proof -
  have l: "length m = length ms" "length m' = length m"
    using a b by (simp_all add: energy_variant_def)
  have "m' ! j = (ms ! j)\<lparr>strain_energy := strain_energy (m' ! j), force_val := force_val (m' ! j)\<rparr>"
    if j: "j < length ms" for j
  proof -
    from j l have j': "j < length m" by simp
    have "m' ! j = ((ms ! j)\<lparr>strain_energy := strain_energy (m ! j), force_val := force_val (m ! j)\<rparr>)
       \<lparr>strain_energy := strain_energy (m' ! j), force_val := force_val (m' ! j)\<rparr>"
      using energy_variant_nth[OF b j'] energy_variant_nth[OF a j] by simp
    then show ?thesis by simp
  qed
  with l show ?thesis by (simp add: energy_variant_def)
qed

lemma energy_variant_update:
  "energy_variant ms (ms[i := (ms ! i)\<lparr>strain_energy := a\<rparr>])"
proof -
  have "ms[i := (ms ! i)\<lparr>strain_energy := a\<rparr>] ! j =
        (ms ! j)\<lparr>strain_energy := strain_energy (ms[i := (ms ! i)\<lparr>strain_energy := a\<rparr>] ! j),
                 force_val := force_val (ms[i := (ms ! i)\<lparr>strain_energy := a\<rparr>] ! j)\<rparr>"
    if "j < length ms" for j
    using that by (cases "j = i") simp_all
  then show ?thesis by (simp add: energy_variant_def)
qed

lemma evaluate_energy_variant: "energy_variant ms (evaluate_energy results ms)"
  by (simp add: energy_variant_def evaluate_energy_def evaluate_member_def Let_def)

lemma symmetrize_one_variant: "energy_variant ms (symmetrize_one ms i)"
proof -
  have two: "energy_variant ms ((ms[i := (ms ! i)\<lparr>strain_energy := a\<rparr>])
               [t := ((ms[i := (ms ! i)\<lparr>strain_energy := a\<rparr>]) ! t)\<lparr>strain_energy := a\<rparr>])" for a t
    by (rule energy_variant_trans[OF energy_variant_update energy_variant_update])
  show ?thesis
    unfolding symmetrize_one_def Let_def
    by (simp add: energy_variant_refl two split: option.splits)
qed

lemma symmetrize_variant: "energy_variant ms (symmetrize al ms)"
proof -
  have "energy_variant ms m \<Longrightarrow> energy_variant ms (fold (\<lambda>i m. symmetrize_one m i) al m)" for m
  proof (induction al arbitrary: m)
    case Nil
    then show ?case by simp
  next
    case (Cons i al)
    from energy_variant_trans[OF Cons.prems symmetrize_one_variant]
    have "energy_variant ms (symmetrize_one m i)" .
    from Cons.IH[OF this] show ?case by simp
  qed
  from this[OF energy_variant_refl] show ?thesis by (simp add: symmetrize_def)
qed

lemma active_list_set: "set (active_list ms) = {i. i < length ms \<and> active (ms ! i)}"
  by (auto simp: active_list_def)

lemma active_list_distinct: "distinct (active_list ms)"
  by (simp add: active_list_def)

lemma sort_active_set: "set (sort_active ms al) = set al"
  by (simp add: sort_active_def)

lemma sort_active_length: "length (sort_active ms al) = length al"
  by (simp add: sort_active_def)


section \<open>Step E: the soft-kill loop\<close>

lemma soft_kill_Inr:
  assumes "soft_kill k em = Inr em'"
  shows "\<exists>e. map_of em k = Some e \<and> map_of em' = (map_of em)(k \<mapsto> attenuate e) \<and> map fst em' = map fst em"
proof -
  from assms obtain e where e: "map_of em k = Some e" and em': "em' = AList.update k (attenuate e) em"
    by (auto simp: soft_kill_def split: option.splits)
  from e have "k \<in> fst ` set em" by (metis domI dom_map_of_conv_image_fst)
  then have "map fst em' = map fst em" by (simp add: em' update_keys)
  with e em' show ?thesis by (simp add: update_conv')
qed

lemma kill_rel_refl: "kill_rel (ms, em) (ms, em)"
proof -
  have "\<exists>n. e = (attenuate ^^ n) e" for e :: element
    by (rule exI[of _ 0]) simp
  then show ?thesis by (simp add: kill_rel_def)
qed

lemma map_of_fst_eq:
  assumes "map fst em' = map fst em" "map_of em k = Some e"
  shows "\<exists>e'. map_of em' k = Some e'"
proof -
  from assms(2) have "k \<in> fst ` set em" by (metis domI dom_map_of_conv_image_fst)
  then have "k \<in> set (map fst em)" by simp
  with assms(1) have "k \<in> fst ` set em'" by (metis set_map)
  then show ?thesis by (metis domD dom_map_of_conv_image_fst)
qed

lemma deactivate_rel:
  assumes sk: "soft_kill (el_id (ms ! j)) em = Inr em1"
  shows "kill_rel (ms, em) (ms[j := (ms ! j)\<lparr>active := False\<rparr>], em1)"
proof -
  let ?k = "el_id (ms ! j)"
  let ?ms' = "ms[j := (ms ! j)\<lparr>active := False\<rparr>]"
  from soft_kill_Inr[OF sk] obtain e where e: "map_of em ?k = Some e"
    and m: "map_of em1 = (map_of em)(?k \<mapsto> attenuate e)" and f: "map fst em1 = map fst em"
    by blast
  have A: "?ms' ! i = (ms ! i)\<lparr>active := active (?ms' ! i)\<rparr> \<and> (active (?ms' ! i) \<longrightarrow> active (ms ! i))"
    if "i < length ms" for i
    using that by (cases "i = j") simp_all
  have B: "\<exists>n. map_of em1 k = Some ((attenuate ^^ n) x)" if "map_of em k = Some x" for k x
  proof (cases "k = ?k")
    case True
    with that e have "x = e" by simp
    with True m have "map_of em1 k = Some ((attenuate ^^ 1) x)" by simp
    then show ?thesis by blast
  next
    case False
    with m that have "map_of em1 k = Some ((attenuate ^^ 0) x)" by simp
    then show ?thesis by blast
  qed
  have C: "\<exists>x n. map_of em (el_id (ms ! i)) = Some x \<and>
                 map_of em1 (el_id (ms ! i)) = Some ((attenuate ^^ Suc n) x)"
    if "i < length ms" "active (ms ! i)" "\<not> active (?ms' ! i)" for i
  proof -
    from that have "i = j" by (cases "i = j") simp_all
    with e m have "map_of em (el_id (ms ! i)) = Some e \<and>
        map_of em1 (el_id (ms ! i)) = Some ((attenuate ^^ Suc 0) e)" by simp
    then show ?thesis by blast
  qed
  show ?thesis
    unfolding kill_rel_def using A B C f by simp
qed

lemma kill_rel_trans:
  assumes r1: "kill_rel (ms, em) (ms1, em1)" and r2: "kill_rel (ms1, em1) (ms2, em2)"
  shows "kill_rel (ms, em) (ms2, em2)"
proof -
  from r1 have l1: "length ms1 = length ms" and f1: "map fst em1 = map fst em"
    and a1: "\<And>j. j < length ms \<Longrightarrow> ms1 ! j = (ms ! j)\<lparr>active := active (ms1 ! j)\<rparr>"
    and m1: "\<And>j. j < length ms \<Longrightarrow> active (ms1 ! j) \<Longrightarrow> active (ms ! j)"
    and s1: "\<And>k e. map_of em k = Some e \<Longrightarrow> \<exists>n. map_of em1 k = Some ((attenuate ^^ n) e)"
    and d1: "\<And>j. j < length ms \<Longrightarrow> active (ms ! j) \<Longrightarrow> \<not> active (ms1 ! j) \<Longrightarrow>
           \<exists>e n. map_of em (el_id (ms ! j)) = Some e \<and>
                 map_of em1 (el_id (ms ! j)) = Some ((attenuate ^^ Suc n) e)"
    unfolding kill_rel_def by simp_all
  from r2 have l2: "length ms2 = length ms1" and f2: "map fst em2 = map fst em1"
    and a2: "\<And>j. j < length ms1 \<Longrightarrow> ms2 ! j = (ms1 ! j)\<lparr>active := active (ms2 ! j)\<rparr>"
    and m2: "\<And>j. j < length ms1 \<Longrightarrow> active (ms2 ! j) \<Longrightarrow> active (ms1 ! j)"
    and s2: "\<And>k e. map_of em1 k = Some e \<Longrightarrow> \<exists>n. map_of em2 k = Some ((attenuate ^^ n) e)"
    and d2: "\<And>j. j < length ms1 \<Longrightarrow> active (ms1 ! j) \<Longrightarrow> \<not> active (ms2 ! j) \<Longrightarrow>
           \<exists>e n. map_of em1 (el_id (ms1 ! j)) = Some e \<and>
                 map_of em2 (el_id (ms1 ! j)) = Some ((attenuate ^^ Suc n) e)"
    unfolding kill_rel_def by simp_all
  have A: "ms2 ! j = (ms ! j)\<lparr>active := active (ms2 ! j)\<rparr> \<and> (active (ms2 ! j) \<longrightarrow> active (ms ! j))"
    if "j < length ms" for j
  proof -
    from that l1 have j1: "j < length ms1" by simp
    have "ms2 ! j = ((ms ! j)\<lparr>active := active (ms1 ! j)\<rparr>)\<lparr>active := active (ms2 ! j)\<rparr>"
      using a2[OF j1] a1[OF that] by simp
    then have "ms2 ! j = (ms ! j)\<lparr>active := active (ms2 ! j)\<rparr>" by simp
    with m1[OF that] m2[OF j1] show ?thesis by blast
  qed
  have B: "\<exists>n. map_of em2 k = Some ((attenuate ^^ n) e)" if "map_of em k = Some e" for k e
  proof -
    from s1[OF that] obtain n where n: "map_of em1 k = Some ((attenuate ^^ n) e)" by blast
    from s2[OF n] obtain m where "map_of em2 k = Some ((attenuate ^^ m) ((attenuate ^^ n) e))" by blast
    then have "map_of em2 k = Some ((attenuate ^^ (m + n)) e)" by (simp add: funpow_add)
    then show ?thesis by blast
  qed
  have C: "\<exists>e n. map_of em (el_id (ms ! j)) = Some e \<and>
                 map_of em2 (el_id (ms ! j)) = Some ((attenuate ^^ Suc n) e)"
    if j: "j < length ms" and act: "active (ms ! j)" and inact: "\<not> active (ms2 ! j)" for j
  proof (cases "active (ms1 ! j)")
    case False
    from d1[OF j act False] obtain e n where e: "map_of em (el_id (ms ! j)) = Some e"
      and n: "map_of em1 (el_id (ms ! j)) = Some ((attenuate ^^ Suc n) e)" by blast
    from s2[OF n] obtain m where
      "map_of em2 (el_id (ms ! j)) = Some ((attenuate ^^ m) ((attenuate ^^ Suc n) e))" by blast
    then have "map_of em2 (el_id (ms ! j)) = Some ((attenuate ^^ Suc (m + n)) e)"
      by (simp add: funpow_add funpow_swap1)
    with e show ?thesis by blast
  next
    case True
    from j l1 have j1: "j < length ms1" by simp
    have id: "el_id (ms1 ! j) = el_id (ms ! j)"
      using a1[OF j] by (metis member.select_convs(1) member.surjective member.update_convs(7))
    from d2[OF j1 True inact] id obtain e' n where e': "map_of em1 (el_id (ms ! j)) = Some e'"
      and n: "map_of em2 (el_id (ms ! j)) = Some ((attenuate ^^ Suc n) e')" by auto
    from map_of_fst_eq[OF f1[symmetric] e'] obtain e where e: "map_of em (el_id (ms ! j)) = Some e"
      by blast
    from s1[OF e] e' obtain m where "e' = (attenuate ^^ m) e" by auto
    with n have "map_of em2 (el_id (ms ! j)) = Some ((attenuate ^^ Suc (n + m)) e)"
      by (simp add: funpow_add)
    with e show ?thesis by blast
  qed
  show ?thesis
    unfolding kill_rel_def using A B C l1 l2 f1 f2 by simp
qed


lemma kill_step_Inr:
  assumes "kill_step al (ms, em) i = Inr (ms', em')"
  defines "tel \<equiv> ms ! (al ! i)"
  defines "ms1 \<equiv> ms[al ! i := tel\<lparr>active := False\<rparr>]"
  shows "i < length al \<and>
         (\<exists>em1. soft_kill (el_id tel) em = Inr em1 \<and>
            ((ms' = ms1 \<and> em' = em1 \<and>
              \<not> (\<exists>k t. mirror_id tel = Some k \<and> k \<noteq> 0 \<and> lookup_id k ms1 = Some t \<and> active (ms1 ! t))) \<or>
             (\<exists>k t. mirror_id tel = Some k \<and> k \<noteq> 0 \<and> lookup_id k ms1 = Some t \<and> active (ms1 ! t) \<and>
                    soft_kill (el_id (ms1 ! t)) em1 = Inr em' \<and>
                    ms' = ms1[t := (ms1 ! t)\<lparr>active := False\<rparr>])))"
  using assms(1) unfolding tel_def ms1_def kill_step_def Let_def
  by (auto split: if_splits sum.splits option.splits)


lemma kill_step_rel:
  assumes "kill_step al (ms, em) i = Inr (ms', em')"
  shows "kill_rel (ms, em) (ms', em')"
proof -
  let ?j = "al ! i"
  let ?ms1 = "ms[?j := (ms ! ?j)\<lparr>active := False\<rparr>]"
  from kill_step_Inr[OF assms] obtain em1 where sk: "soft_kill (el_id (ms ! ?j)) em = Inr em1"
    and alt: "(ms' = ?ms1 \<and> em' = em1) \<or>
       (\<exists>t. soft_kill (el_id (?ms1 ! t)) em1 = Inr em' \<and> ms' = ?ms1[t := (?ms1 ! t)\<lparr>active := False\<rparr>])"
    by blast
  have r1: "kill_rel (ms, em) (?ms1, em1)" by (rule deactivate_rel[OF sk])
  from alt show ?thesis
  proof
    assume "ms' = ?ms1 \<and> em' = em1"
    with r1 show ?thesis by simp
  next
    assume "\<exists>t. soft_kill (el_id (?ms1 ! t)) em1 = Inr em' \<and> ms' = ?ms1[t := (?ms1 ! t)\<lparr>active := False\<rparr>]"
    then obtain t where sk2: "soft_kill (el_id (?ms1 ! t)) em1 = Inr em'"
      and ms': "ms' = ?ms1[t := (?ms1 ! t)\<lparr>active := False\<rparr>]" by blast
    from deactivate_rel[OF sk2] ms' have "kill_rel (?ms1, em1) (ms', em')" by simp
    with r1 show ?thesis by (rule kill_rel_trans)
  qed
qed

lemma kill_rel_length: "kill_rel (ms, em) (ms', em') \<Longrightarrow> length ms' = length ms"
  by (simp add: kill_rel_def)

lemma kill_rel_nth:
  "kill_rel (ms, em) (ms', em') \<Longrightarrow> j < length ms \<Longrightarrow> ms' ! j = (ms ! j)\<lparr>active := active (ms' ! j)\<rparr>"
  by (simp add: kill_rel_def)

lemma kill_rel_inactive:
  "kill_rel (ms, em) (ms', em') \<Longrightarrow> j < length ms \<Longrightarrow> \<not> active (ms ! j) \<Longrightarrow> \<not> active (ms' ! j)"
  by (simp add: kill_rel_def) blast

lemma kill_rel_el_id:
  assumes "kill_rel (ms, em) (ms', em')" "j < length ms"
  shows "el_id (ms' ! j) = el_id (ms ! j)"
proof -
  have "el_id (ms' ! j) = el_id ((ms ! j)\<lparr>active := active (ms' ! j)\<rparr>)"
    using kill_rel_nth[OF assms] by simp
  then show ?thesis by simp
qed

lemma kill_rel_mirror_id:
  assumes "kill_rel (ms, em) (ms', em')" "j < length ms"
  shows "mirror_id (ms' ! j) = mirror_id (ms ! j)"
proof -
  have "mirror_id (ms' ! j) = mirror_id ((ms ! j)\<lparr>active := active (ms' ! j)\<rparr>)"
    using kill_rel_nth[OF assms] by simp
  then show ?thesis by simp
qed

lemma kill_rel_ids:
  assumes "kill_rel (ms, em) (ms', em')"
  shows "map el_id ms' = map el_id ms"
  by (rule nth_equalityI)
     (simp_all add: kill_rel_length[OF assms] kill_rel_el_id[OF assms])

lemma kill_step_target:
  assumes ks: "kill_step al (ms, em) i = Inr (ms', em')" and j: "al ! i < length ms"
  shows "\<not> active (ms' ! (al ! i))"
proof -
  let ?j = "al ! i"
  let ?ms1 = "ms[?j := (ms ! ?j)\<lparr>active := False\<rparr>]"
  have in1: "\<not> active (?ms1 ! ?j)" using j by simp
  from kill_step_Inr[OF ks] have "ms' = ?ms1 \<or> (\<exists>t. ms' = ?ms1[t := (?ms1 ! t)\<lparr>active := False\<rparr>])"
    by blast
  then show ?thesis
  proof
    assume "ms' = ?ms1" with in1 show ?thesis by simp
  next
    assume "\<exists>t. ms' = ?ms1[t := (?ms1 ! t)\<lparr>active := False\<rparr>]"
    then obtain t where ms': "ms' = ?ms1[t := (?ms1 ! t)\<lparr>active := False\<rparr>]" by blast
    show ?thesis
    proof (cases "t = ?j")
      case True
      with ms' j show ?thesis by simp
    next
      case False
      with ms' in1 show ?thesis by simp
    qed
  qed
qed

lemma map_el_id_deactivate: "map el_id (ms[j := (ms ! j)\<lparr>active := b\<rparr>]) = map el_id ms"
proof (rule nth_equalityI)
  show "length (map el_id (ms[j := (ms ! j)\<lparr>active := b\<rparr>])) = length (map el_id ms)" by simp
next
  fix i assume "i < length (map el_id (ms[j := (ms ! j)\<lparr>active := b\<rparr>]))"
  then have i: "i < length ms" by simp
  then show "map el_id (ms[j := (ms ! j)\<lparr>active := b\<rparr>]) ! i = map el_id ms ! i"
    by (cases "i = j") simp_all
qed

lemma kill_step_twin:
  assumes ks: "kill_step al (ms, em) i = Inr (ms', em')"
    and mir: "mirror_id (ms ! (al ! i)) = Some k" and k: "k \<noteq> 0"
    and lk: "lookup_id k ms = Some t"
  shows "\<not> active (ms' ! t)"
proof -
  let ?j = "al ! i"
  let ?ms1 = "ms[?j := (ms ! ?j)\<lparr>active := False\<rparr>]"
  have lk1: "lookup_id k ?ms1 = Some t"
    using lk lookup_id_cong[OF map_el_id_deactivate, of k ms ?j False] by simp
  from lookup_id_Some[OF lk1] have t: "t < length ?ms1" by simp
  from kill_step_Inr[OF ks] mir k lk1
  have "(ms' = ?ms1 \<and> \<not> active (?ms1 ! t)) \<or> ms' = ?ms1[t := (?ms1 ! t)\<lparr>active := False\<rparr>]"
    by auto
  then show ?thesis
  proof
    assume "ms' = ?ms1 \<and> \<not> active (?ms1 ! t)" then show ?thesis by simp
  next
    assume "ms' = ?ms1[t := (?ms1 ! t)\<lparr>active := False\<rparr>]"
    with t show ?thesis by simp
  qed
qed


lemma soft_kill_loop_rel:
  "soft_kill_loop al is (ms, em) = Inr (ms', em') \<Longrightarrow> kill_rel (ms, em) (ms', em')"
proof (induction "is" arbitrary: ms em)
  case Nil
  then show ?case by (simp add: kill_rel_refl)
next
  case (Cons i "is")
  from Cons.prems obtain ms1 em1 where ks: "kill_step al (ms, em) i = Inr (ms1, em1)"
    and rest: "soft_kill_loop al is (ms1, em1) = Inr (ms', em')"
    by (auto split: sum.splits)
  from kill_step_rel[OF ks] Cons.IH[OF rest] show ?case by (rule kill_rel_trans)
qed

lemma soft_kill_loop_target:
  "soft_kill_loop al is (ms, em) = Inr (ms', em') \<Longrightarrow> i \<in> set is \<Longrightarrow> al ! i < length ms
     \<Longrightarrow> \<not> active (ms' ! (al ! i))"
proof (induction "is" arbitrary: ms em)
  case Nil
  then show ?case by simp
next
  case (Cons i' "is")
  from Cons.prems(1) obtain ms1 em1 where ks: "kill_step al (ms, em) i' = Inr (ms1, em1)"
    and rest: "soft_kill_loop al is (ms1, em1) = Inr (ms', em')"
    by (auto split: sum.splits)
  have len1: "length ms1 = length ms" by (rule kill_rel_length[OF kill_step_rel[OF ks]])
  show ?case
  proof (cases "i = i'")
    case True
    from kill_step_target[OF ks] Cons.prems(3) True have "\<not> active (ms1 ! (al ! i))" by simp
    with kill_rel_inactive[OF soft_kill_loop_rel[OF rest]] Cons.prems(3) len1
    show ?thesis by simp
  next
    case False
    with Cons.prems(2) have "i \<in> set is" by simp
    with Cons.IH[OF rest] Cons.prems(3) len1 show ?thesis by simp
  qed
qed

lemma soft_kill_loop_twin:
  "soft_kill_loop al is (ms, em) = Inr (ms', em') \<Longrightarrow> i \<in> set is \<Longrightarrow> al ! i < length ms
     \<Longrightarrow> mirror_id (ms ! (al ! i)) = Some k \<Longrightarrow> k \<noteq> 0 \<Longrightarrow> lookup_id k ms = Some t
     \<Longrightarrow> \<not> active (ms' ! t)"
proof (induction "is" arbitrary: ms em)
  case Nil
  then show ?case by simp
next
  case (Cons i' "is")
  from Cons.prems(1) obtain ms1 em1 where ks: "kill_step al (ms, em) i' = Inr (ms1, em1)"
    and rest: "soft_kill_loop al is (ms1, em1) = Inr (ms', em')"
    by (auto split: sum.splits)
  note r1 = kill_step_rel[OF ks]
  have len1: "length ms1 = length ms" by (rule kill_rel_length[OF r1])
  from lookup_id_Some[OF Cons.prems(6)] have t: "t < length ms" by simp
  show ?case
  proof (cases "i = i'")
    case True
    from kill_step_twin[OF ks] Cons.prems(4,5,6) True have "\<not> active (ms1 ! t)" by simp
    with kill_rel_inactive[OF soft_kill_loop_rel[OF rest]] t len1
    show ?thesis by simp
  next
    case False
    with Cons.prems(2) have i: "i \<in> set is" by simp
    have m: "mirror_id (ms1 ! (al ! i)) = Some k"
      using kill_rel_mirror_id[OF r1 Cons.prems(3)] Cons.prems(4) by simp
    have l: "lookup_id k ms1 = Some t"
      using lookup_id_cong[OF kill_rel_ids[OF r1], of k] Cons.prems(6) by simp
    from Cons.IH[OF rest i _ m Cons.prems(5) l] Cons.prems(3) len1 show ?thesis by simp
  qed
qed

lemma soft_kill_loop_indices:
  "soft_kill_loop al is st = Inr st' \<Longrightarrow> i \<in> set is \<Longrightarrow> i < length al"
proof (induction "is" arbitrary: st)
  case Nil
  then show ?case by simp
next
  case (Cons i' "is")
  from Cons.prems(1) obtain st1 where ks: "kill_step al st i' = Inr st1"
    and rest: "soft_kill_loop al is st1 = Inr st'"
    by (auto split: sum.splits)
  obtain ms em where st: "st = (ms, em)" by (cases st)
  obtain ms1 em1 where st1: "st1 = (ms1, em1)" by (cases st1)
  from kill_step_Inr[OF ks[unfolded st st1]] have "i' < length al" by blast
  with Cons.IH[OF rest] Cons.prems(2) show ?case by auto
qed

lemma kill_rel_fields:
  assumes "kill_rel (ms, em) (ms', em')" "j < length ms"
  shows "p1 (ms' ! j) = p1 (ms ! j)" "p2 (ms' ! j) = p2 (ms ! j)"
    "mid_x (ms' ! j) = mid_x (ms ! j)" "mid_y (ms' ! j) = mid_y (ms ! j)"
    "el_length (ms' ! j) = el_length (ms ! j)"
    "strain_energy (ms' ! j) = strain_energy (ms ! j)" "force_val (ms' ! j) = force_val (ms ! j)"
proof -
  let ?r = "(ms ! j)\<lparr>active := active (ms' ! j)\<rparr>"
  have e: "ms' ! j = ?r" by (rule kill_rel_nth[OF assms])
  have "p1 (ms' ! j) = p1 ?r" using e by simp
  then show "p1 (ms' ! j) = p1 (ms ! j)" by simp
  have "p2 (ms' ! j) = p2 ?r" using e by simp
  then show "p2 (ms' ! j) = p2 (ms ! j)" by simp
  have "mid_x (ms' ! j) = mid_x ?r" using e by simp
  then show "mid_x (ms' ! j) = mid_x (ms ! j)" by simp
  have "mid_y (ms' ! j) = mid_y ?r" using e by simp
  then show "mid_y (ms' ! j) = mid_y (ms ! j)" by simp
  have "el_length (ms' ! j) = el_length ?r" using e by simp
  then show "el_length (ms' ! j) = el_length (ms ! j)" by simp
  have "strain_energy (ms' ! j) = strain_energy ?r" using e by simp
  then show "strain_energy (ms' ! j) = strain_energy (ms ! j)" by simp
  have "force_val (ms' ! j) = force_val ?r" using e by simp
  then show "force_val (ms' ! j) = force_val (ms ! j)" by simp
qed

lemma kill_rel_active:
  "kill_rel (ms, em) (ms', em') \<Longrightarrow> j < length ms \<Longrightarrow> active (ms' ! j) \<Longrightarrow> active (ms ! j)"
  by (simp add: kill_rel_def)

lemma kill_rel_keys: "kill_rel (ms, em) (ms', em') \<Longrightarrow> map fst em' = map fst em"
  by (simp add: kill_rel_def)

lemma kill_rel_scaled:
  "kill_rel (ms, em) (ms', em') \<Longrightarrow> map_of em k = Some e \<Longrightarrow>
     \<exists>n. map_of em' k = Some ((attenuate ^^ n) e)"
  by (simp add: kill_rel_def)


section \<open>run\_iteration as a whole\<close>

lemma symmetrized_variant: "energy_variant ms (symmetrized results ms)"
  unfolding symmetrized_def
  by (rule energy_variant_trans[OF evaluate_energy_variant symmetrize_variant])

lemma ranked_active_set: "set (ranked_active results ms) = {i. i < length ms \<and> active (ms ! i)}"
  by (simp add: ranked_active_def sort_active_set active_list_set)

lemma ranked_active_length: "length (ranked_active results ms) = length (active_list ms)"
  by (simp add: ranked_active_def sort_active_length)

lemma run_iteration_Inr:
  assumes "run_iteration solver opt n r = Inr (disp, cnt, opt')"
  shows "\<exists>results ms_e em.
           solver (ss opt) = Inr results \<and>
           soft_kill_loop (ranked_active results (elements_metadata opt))
              [0..<nat (removal_count (length (active_list (elements_metadata opt))) r)]
              (symmetrized results (elements_metadata opt), element_map (ss opt)) = Inr (ms_e, em) \<and>
           cnt = int (length (active_list (elements_metadata opt)))
                   - removal_count (length (active_list (elements_metadata opt))) r \<and>
           opt' = opt\<lparr>ss := (ss opt)\<lparr>element_map := em\<rparr>, elements_metadata := ms_e\<rparr>"
  using assms
  unfolding run_iteration_def Let_def ranked_active_def symmetrized_def sort_active_length
  by (auto split: sum.splits prod.splits)


text \<open>What a call of \<open>run_iteration\<close> that returns leaves as it was.\<close>

lemma run_iteration_frame:
  assumes run: "run_iteration solver opt n r = Inr (disp, cnt, opt')"
  shows "length (elements_metadata opt') = length (elements_metadata opt)"
    and "map fst (element_map (ss opt')) = map fst (element_map (ss opt))"
    and "map_of (element_map (ss opt)) k = Some e \<Longrightarrow>
           \<exists>m. map_of (element_map (ss opt')) k = Some ((attenuate ^^ m) e)"
    and "j < length (elements_metadata opt) \<Longrightarrow>
           el_id (elements_metadata opt' ! j) = el_id (elements_metadata opt ! j) \<and>
           mirror_id (elements_metadata opt' ! j) = mirror_id (elements_metadata opt ! j) \<and>
           p1 (elements_metadata opt' ! j) = p1 (elements_metadata opt ! j) \<and>
           p2 (elements_metadata opt' ! j) = p2 (elements_metadata opt ! j) \<and>
           mid_x (elements_metadata opt' ! j) = mid_x (elements_metadata opt ! j) \<and>
           mid_y (elements_metadata opt' ! j) = mid_y (elements_metadata opt ! j) \<and>
           el_length (elements_metadata opt' ! j) = el_length (elements_metadata opt ! j) \<and>
           (active (elements_metadata opt' ! j) \<longrightarrow> active (elements_metadata opt ! j))"
proof -
  let ?ms = "elements_metadata opt"
  from run_iteration_Inr[OF run] obtain results ms_e em where
    loop: "soft_kill_loop (ranked_active results ?ms)
             [0..<nat (removal_count (length (active_list ?ms)) r)]
             (symmetrized results ?ms, element_map (ss opt)) = Inr (ms_e, em)"
    and opt': "opt' = opt\<lparr>ss := (ss opt)\<lparr>element_map := em\<rparr>, elements_metadata := ms_e\<rparr>"
    by blast
  let ?msc = "symmetrized results ?ms"
  note ev = symmetrized_variant[of ?ms results]
  note kr = soft_kill_loop_rel[OF loop]
  have len: "length ?msc = length ?ms" by (rule energy_variant_length[OF ev])
  show "length (elements_metadata opt') = length ?ms"
    using kill_rel_length[OF kr] len by (simp add: opt')
  show "map fst (element_map (ss opt')) = map fst (element_map (ss opt))"
    using kill_rel_keys[OF kr] by (simp add: opt')
  show "\<exists>m. map_of (element_map (ss opt')) k = Some ((attenuate ^^ m) e)"
    if "map_of (element_map (ss opt)) k = Some e"
    using kill_rel_scaled[OF kr that] by (simp add: opt')
  show "el_id (elements_metadata opt' ! j) = el_id (?ms ! j) \<and>
        mirror_id (elements_metadata opt' ! j) = mirror_id (?ms ! j) \<and>
        p1 (elements_metadata opt' ! j) = p1 (?ms ! j) \<and>
        p2 (elements_metadata opt' ! j) = p2 (?ms ! j) \<and>
        mid_x (elements_metadata opt' ! j) = mid_x (?ms ! j) \<and>
        mid_y (elements_metadata opt' ! j) = mid_y (?ms ! j) \<and>
        el_length (elements_metadata opt' ! j) = el_length (?ms ! j) \<and>
        (active (elements_metadata opt' ! j) \<longrightarrow> active (?ms ! j))"
    if j: "j < length ?ms"
  proof -
    from j len have j': "j < length ?msc" by simp
    show ?thesis
      using kill_rel_el_id[OF kr j'] kill_rel_mirror_id[OF kr j'] kill_rel_fields(1-5)[OF kr j']
        kill_rel_active[OF kr j'] energy_variant_fields[OF ev j]
      by (simp add: opt')
  qed
qed


section \<open>Claims on the energy evaluation\<close>

subsection \<open>C7: the strain energy of an active member\<close>

lemma fold_max_Max: "fold max vs (v::real) = Max (set (v # vs))"
  by (rule Max.set_eq_fold[symmetric])

lemma element_force_cases:
  "element_force res =
     (case res_N res of
        Scalar v \<Rightarrow> \<bar>v\<bar>
      | Distribution xs \<Rightarrow>
          (if \<forall>x\<in>set xs. x = None then 0
           else Max ((\<lambda>x. \<bar>the x\<bar>) ` {x \<in> set xs. x \<noteq> None}))
      | NoneVal \<Rightarrow> max \<bar>case res_Nmin res of None \<Rightarrow> 0 | Some v \<Rightarrow> v\<bar>
                       \<bar>case res_Nmax res of None \<Rightarrow> 0 | Some v \<Rightarrow> v\<bar>
      | Absent \<Rightarrow> 0)"
proof (cases "res_N res")
  case (Distribution xs)
  let ?vf = "map (\<lambda>x. \<bar>the x\<bar>) (filter (\<lambda>x. x \<noteq> None) xs)"
  have s: "set ?vf = (\<lambda>x. \<bar>the x\<bar>) ` {x \<in> set xs. x \<noteq> None}" by simp
  show ?thesis
  proof (cases ?vf)
    case Nil
    then have "filter (\<lambda>x. x \<noteq> None) xs = []" by simp
    then have "\<forall>x\<in>set xs. x = None" by (simp add: filter_empty_conv)
    with Nil Distribution show ?thesis by (simp add: element_force_def)
  next
    case (Cons v vs)
    then have "set ?vf \<noteq> {}" by simp
    then have ne: "\<not> (\<forall>x\<in>set xs. x = None)" by auto
    have "element_force res = fold max vs v"
      using Cons Distribution by (simp add: element_force_def)
    also have "\<dots> = Max (set ?vf)" using Cons by (simp add: fold_max_Max)
    finally have "element_force res = Max ((\<lambda>x. \<bar>the x\<bar>) ` {x \<in> set xs. x \<noteq> None})"
      using s by simp
    moreover from ne have "(if \<forall>x\<in>set xs. x = None then 0
           else Max ((\<lambda>x. \<bar>the x\<bar>) ` {x \<in> set xs. x \<noteq> None})) =
         Max ((\<lambda>x. \<bar>the x\<bar>) ` {x \<in> set xs. x \<noteq> None})"
      by (rule if_not_P)
    ultimately show ?thesis using Distribution by (simp del: not_None_eq)
  qed
qed (simp_all add: element_force_def Let_def)

text \<open>
  C7. For every active member, step B sets \<open>strain_energy\<close> to the square of the force
  times the length (and \<open>force_val\<close> to the force), where the force is the absolute value
  of a scalar \<open>N\<close>; the greatest absolute value of the entries of a distribution \<open>N\<close> that
  are not \<open>None\<close>, or 0 when it has none; the greater of the absolute values of \<open>Nmin\<close> and
  \<open>Nmax\<close> (each read as 0 when it is missing) when \<open>N\<close> is \<open>None\<close>; and 0 when the
  result has no entry \<open>N\<close>.
\<close>

theorem energy_evaluation:
  assumes "j < length ms" "active (ms ! j)"
  shows "strain_energy (evaluate_energy results ms ! j) =
           (element_force (results (el_id (ms ! j))))\<^sup>2 * el_length (ms ! j) \<and>
         force_val (evaluate_energy results ms ! j) = Some (element_force (results (el_id (ms ! j)))) \<and>
         element_force (results (el_id (ms ! j))) =
           (case res_N (results (el_id (ms ! j))) of
              Scalar v \<Rightarrow> \<bar>v\<bar>
            | Distribution xs \<Rightarrow>
                (if \<forall>x\<in>set xs. x = None then 0
                 else Max ((\<lambda>x. \<bar>the x\<bar>) ` {x \<in> set xs. x \<noteq> None}))
            | NoneVal \<Rightarrow> max \<bar>case res_Nmin (results (el_id (ms ! j))) of None \<Rightarrow> 0 | Some v \<Rightarrow> v\<bar>
                             \<bar>case res_Nmax (results (el_id (ms ! j))) of None \<Rightarrow> 0 | Some v \<Rightarrow> v\<bar>
            | Absent \<Rightarrow> 0)"
proof -
  have "evaluate_energy results ms ! j = evaluate_member results (ms ! j)"
    using assms by (simp add: evaluate_energy_def)
  then have "strain_energy (evaluate_energy results ms ! j) =
           (element_force (results (el_id (ms ! j))))\<^sup>2 * el_length (ms ! j)"
    and "force_val (evaluate_energy results ms ! j) = Some (element_force (results (el_id (ms ! j))))"
    by (simp_all add: evaluate_member_def Let_def)
  with element_force_cases[of "results (el_id (ms ! j))"] show ?thesis by blast
qed

text \<open>The theorem at member 1 of the cells of span 32: the force 3, the length 5.\<close>

theorem energy_evaluation_witness:
  "strain_energy (evaluate_energy cells_results cells ! 0) = 3\<^sup>2 * 5 \<and>
   force_val (evaluate_energy cells_results cells ! 0) = Some 3"
proof -
  have l: "0 < length cells" by code_simp
  have a: "active (cells ! 0)" by code_simp
  have f: "element_force (cells_results (el_id (cells ! 0))) = 3" by code_simp
  have len: "el_length (cells ! 0) = 5" by code_simp
  from energy_evaluation[OF l a, of cells_results] f len show ?thesis by simp
qed


subsection \<open>C5: the strain energies of a member and its mirror after step C\<close>

lemma one_directionalD:
  assumes "one_directional ms" "j < length ms" "mirror_id (ms ! j) = Some k" "lookup_id k ms = Some t"
  shows "mirror_id (ms ! t) = None"
proof -
  from assms(1,2) have "case mirror_id (ms ! j) of None \<Rightarrow> True
      | Some k \<Rightarrow> (case lookup_id k ms of None \<Rightarrow> True | Some t \<Rightarrow> mirror_id (ms ! t) = None)"
    by (simp add: one_directional_def list_all_length)
  with assms(3,4) show ?thesis by simp
qed

lemma mirror_ownersD:
  assumes "mirror_owners ms k = [i]" "j < length ms" "mirror_id (ms ! j) = Some k"
  shows "j = i"
proof -
  from assms(2,3) have "j \<in> set (mirror_owners ms k)" by (simp add: mirror_owners_def)
  with assms(1) show ?thesis by simp
qed

lemma symmetrize_one_other:
  assumes ev: "energy_variant ms m" and od: "one_directional ms"
    and own: "mirror_owners ms k = [i]" and lk: "lookup_id k ms = Some t"
    and mi: "mirror_id (ms ! i) = Some k" and i: "i < length ms"
    and j: "j < length ms" and ji: "j \<noteq> i"
  shows "strain_energy (symmetrize_one m j ! i) = strain_energy (m ! i) \<and>
         strain_energy (symmetrize_one m j ! t) = strain_energy (m ! t)"
proof (cases "mirror_id (m ! j)")
  case None
  then show ?thesis by (simp add: symmetrize_one_def)
next
  case (Some k')
  then have mj: "mirror_id (ms ! j) = Some k'" using energy_variant_fields(2)[OF ev j] by simp
  have lkeq: "lookup_id k' m = lookup_id k' ms"
    by (rule lookup_id_cong[OF energy_variant_ids[OF ev]])
  show ?thesis
  proof (cases "lookup_id k' ms")
    case None
    with Some lkeq show ?thesis by (simp add: symmetrize_one_def)
  next
    case (Some t')
    note lk' = this
    from one_directionalD[OF od i mi lk] have tn: "mirror_id (ms ! t) = None" .
    from one_directionalD[OF od j mj lk'] have t'n: "mirror_id (ms ! t') = None" .
    from tn mj have jt: "j \<noteq> t" by auto
    from t'n mi have t'i: "t' \<noteq> i" by auto
    have t't: "t' \<noteq> t"
    proof
      assume "t' = t"
      with lookup_id_Some[OF lk'] lookup_id_Some[OF lk] have "k' = k" by simp
      with mirror_ownersD[OF own j] mj ji show False by simp
    qed
    show ?thesis
      using \<open>mirror_id (m ! j) = Some k'\<close> lkeq lk' ji jt t'i t't
      by (simp add: symmetrize_one_def Let_def)
  qed
qed

lemma symmetrize_one_self:
  assumes ev: "energy_variant ms m" and od: "one_directional ms"
    and lk: "lookup_id k ms = Some t"
    and mi: "mirror_id (ms ! i) = Some k" and i: "i < length ms"
    and at: "active (ms ! t)"
  shows "strain_energy (symmetrize_one m i ! i) = (strain_energy (m ! i) + strain_energy (m ! t)) / 2 \<and>
         strain_energy (symmetrize_one m i ! t) = (strain_energy (m ! i) + strain_energy (m ! t)) / 2"
proof -
  from lookup_id_Some[OF lk] have t: "t < length ms" by simp
  have len: "length m = length ms" by (rule energy_variant_length[OF ev])
  have mi': "mirror_id (m ! i) = Some k" using energy_variant_fields(2)[OF ev i] mi by simp
  have lk': "lookup_id k m = Some t"
    using lookup_id_cong[OF energy_variant_ids[OF ev], of k] lk by simp
  have at': "active (m ! t)" using energy_variant_fields(3)[OF ev t] at by simp
  from one_directionalD[OF od i mi lk] mi have it: "i \<noteq> t" by auto
  show ?thesis
    using mi' lk' at' it i t len by (simp add: symmetrize_one_def Let_def)
qed

lemma symmetrize_fold_other:
  assumes od: "one_directional ms"
    and own: "mirror_owners ms k = [i]" and lk: "lookup_id k ms = Some t"
    and mi: "mirror_id (ms ! i) = Some k" and i: "i < length ms"
  shows "energy_variant ms m \<Longrightarrow> i \<notin> set js \<Longrightarrow> set js \<subseteq> {..<length ms} \<Longrightarrow>
         strain_energy (fold (\<lambda>i m. symmetrize_one m i) js m ! i) = strain_energy (m ! i) \<and>
         strain_energy (fold (\<lambda>i m. symmetrize_one m i) js m ! t) = strain_energy (m ! t)"
proof (induction js arbitrary: m)
  case Nil
  then show ?case by simp
next
  case (Cons j js)
  from Cons.prems have j: "j < length ms" and ji: "j \<noteq> i" by auto
  have ev': "energy_variant ms (symmetrize_one m j)"
    by (rule energy_variant_trans[OF Cons.prems(1) symmetrize_one_variant])
  from Cons.prems have rest: "i \<notin> set js" "set js \<subseteq> {..<length ms}" by auto
  from Cons.IH[OF ev' rest] symmetrize_one_other[OF Cons.prems(1) od own lk mi i j ji]
  show ?case by simp
qed

lemma symmetrize_pair:
  assumes ev: "energy_variant ms m" and od: "one_directional ms"
    and own: "mirror_owners ms k = [i]" and lk: "lookup_id k ms = Some t"
    and mi: "mirror_id (ms ! i) = Some k" and i: "i < length ms" and at: "active (ms ! t)"
    and d: "distinct al" and ial: "i \<in> set al" and sub: "set al \<subseteq> {..<length ms}"
  shows "strain_energy (symmetrize al m ! i) = (strain_energy (m ! i) + strain_energy (m ! t)) / 2 \<and>
         strain_energy (symmetrize al m ! t) = (strain_energy (m ! i) + strain_energy (m ! t)) / 2"
proof -
  from split_list[OF ial] obtain xs ys where al: "al = xs @ i # ys" by blast
  with d have ixs: "i \<notin> set xs" and iys: "i \<notin> set ys" by auto
  from al sub have sxs: "set xs \<subseteq> {..<length ms}" and sys: "set ys \<subseteq> {..<length ms}" by auto
  let ?f = "\<lambda>i m. symmetrize_one m i"
  let ?m1 = "fold ?f xs m"
  let ?m2 = "symmetrize_one ?m1 i"
  have ev1: "energy_variant ms ?m1"
    using energy_variant_trans[OF ev symmetrize_variant[of m xs]] by (simp add: symmetrize_def)
  have ev2: "energy_variant ms ?m2"
    by (rule energy_variant_trans[OF ev1 symmetrize_one_variant])
  have s1: "strain_energy (?m1 ! i) = strain_energy (m ! i) \<and> strain_energy (?m1 ! t) = strain_energy (m ! t)"
    by (rule symmetrize_fold_other[OF od own lk mi i ev ixs sxs])
  have s2: "strain_energy (?m2 ! i) = (strain_energy (?m1 ! i) + strain_energy (?m1 ! t)) / 2 \<and>
            strain_energy (?m2 ! t) = (strain_energy (?m1 ! i) + strain_energy (?m1 ! t)) / 2"
    by (rule symmetrize_one_self[OF ev1 od lk mi i at])
  have s3: "strain_energy (fold ?f ys ?m2 ! i) = strain_energy (?m2 ! i) \<and>
            strain_energy (fold ?f ys ?m2 ! t) = strain_energy (?m2 ! t)"
    by (rule symmetrize_fold_other[OF od own lk mi i ev2 iys sys])
  have "symmetrize al m = fold ?f ys ?m2" by (simp add: symmetrize_def al)
  with s1 s2 s3 show ?thesis by simp
qed

text \<open>
  C5, as amended. Let the member list be one-directional (the member found under a mirror
  id has no mirror itself, as step 4 leaves it). After steps B and C, for every active
  member whose mirror is active and is the mirror of no other member, the \<open>strain_energy\<close>
  of the member and of its mirror are equal, both the average of the two values that
  step B computed.
\<close>

theorem symmetrized_pair_equal:
  assumes "i < length ms" "active (ms ! i)" "mirror_id (ms ! i) = Some k"
    and "lookup_id k ms = Some t" "active (ms ! t)"
    and "one_directional ms" "mirror_owners ms k = [i]"
  shows "strain_energy (symmetrized results ms ! i) = strain_energy (symmetrized results ms ! t) \<and>
         strain_energy (symmetrized results ms ! i) =
           (strain_energy (evaluate_energy results ms ! i)
              + strain_energy (evaluate_energy results ms ! t)) / 2"
proof -
  have ial: "i \<in> set (active_list ms)" using assms(1,2) by (simp add: active_list_set)
  have sub: "set (active_list ms) \<subseteq> {..<length ms}" by (auto simp: active_list_set)
  from symmetrize_pair[OF evaluate_energy_variant assms(6,7,4,3,1,5) active_list_distinct ial sub,
      of results]
  show ?thesis by (simp add: symmetrized_def)
qed

text \<open>The theorem at the cells of span 32: member 3 and its mirror 12.\<close>

theorem symmetrized_pair_equal_witness:
  "strain_energy (symmetrized cells_results cells ! 2) = strain_energy (symmetrized cells_results cells ! 11) \<and>
   strain_energy (symmetrized cells_results cells ! 2) =
     (strain_energy (evaluate_energy cells_results cells ! 2)
        + strain_energy (evaluate_energy cells_results cells ! 11)) / 2"
proof -
  have 1: "2 < length cells" by code_simp
  have 2: "active (cells ! 2)" by code_simp
  have 3: "mirror_id (cells ! 2) = Some 12" by code_simp
  have 4: "lookup_id 12 cells = Some 11" by code_simp
  have 5: "active (cells ! 11)" by code_simp
  have 6: "one_directional cells" by code_simp
  have 7: "mirror_owners cells 12 = [2]" by code_simp
  from symmetrized_pair_equal[OF 1 2 3 4 5 6 7] show ?thesis .
qed

text \<open>
  C5 as stated fails: members 1 and 2 of the cells have the same mirror 10. Step C first
  averages member 1 with member 10 and then member 2 with member 10, so that member 1
  and its active mirror end with different values.
\<close>

theorem shared_mirror_unequal:
  "active (cells ! 0) \<and> mirror_id (cells ! 0) = Some 10 \<and> lookup_id 10 cells = Some 9 \<and>
   active (cells ! 9) \<and>
   active (symmetrized cells_results cells ! 0) \<and> active (symmetrized cells_results cells ! 9) \<and>
   strain_energy (symmetrized cells_results cells ! 0) = 45 / 2 \<and>
   strain_energy (symmetrized cells_results cells ! 9) = 45 / 4 \<and>
   strain_energy (symmetrized cells_results cells ! 0) \<noteq> strain_energy (symmetrized cells_results cells ! 9)"
  by code_simp


section \<open>Claims on the pruning step\<close>

subsection \<open>C2: a selected member and its mirror\<close>

lemma cells_run_Inr:
  "run_iteration (\<lambda>s. Inr cells_results) (optimizer_of cells) 1 (2 / 100) =
     Inr (projr (run_iteration (\<lambda>s. Inr cells_results) (optimizer_of cells) 1 (2 / 100)))"
proof -
  have "\<not> isl (run_iteration (\<lambda>s. Inr cells_results) (optimizer_of cells) 1 (2 / 100))"
    by code_simp
  then show ?thesis by simp
qed

text \<open>
  C2, as amended. In a call of \<open>run_iteration\<close> that returns, let a member be selected for
  removal (it stands among the first \<open>count_to_remove\<close> entries of the sorted active
  list), let its \<open>mirror_id\<close> be \<open>k\<close>, not 0, and let the member found under the id \<open>k\<close>
  be active when the call starts. Then after the call the selected member and that
  mirror are both inactive, and the stiffness pair of the element \<open>k\<close> has been attenuated
  at least once. Nothing is said of a member whose mirror is removed by another path.
\<close>

theorem selected_mirror_killed:
  assumes run: "run_iteration solver opt n r = Inr (disp, cnt, opt')"
    and res: "solver (ss opt) = Inr results"
    and i: "i < nat (removal_count (length (active_list (elements_metadata opt))) r)"
    and mir: "mirror_id (elements_metadata opt ! (ranked_active results (elements_metadata opt) ! i)) = Some k"
    and k: "k \<noteq> 0"
    and lk: "lookup_id k (elements_metadata opt) = Some t"
    and act: "active (elements_metadata opt ! t)"
  shows "\<not> active (elements_metadata opt' ! (ranked_active results (elements_metadata opt) ! i)) \<and>
         \<not> active (elements_metadata opt' ! t) \<and>
         (\<exists>e m. map_of (element_map (ss opt)) k = Some e \<and>
                map_of (element_map (ss opt')) k = Some ((attenuate ^^ Suc m) e))"
proof -
  let ?ms = "elements_metadata opt"
  let ?al = "ranked_active results ?ms"
  let ?c = "removal_count (length (active_list ?ms)) r"
  let ?msc = "symmetrized results ?ms"
  from run_iteration_Inr[OF run] res obtain ms_e em where
    loop: "soft_kill_loop ?al [0..<nat ?c] (?msc, element_map (ss opt)) = Inr (ms_e, em)"
    and opt': "opt' = opt\<lparr>ss := (ss opt)\<lparr>element_map := em\<rparr>, elements_metadata := ms_e\<rparr>"
    by auto
  note ev = symmetrized_variant[of ?ms results]
  have len: "length ?msc = length ?ms" by (rule energy_variant_length[OF ev])
  from i have iset: "i \<in> set [0..<nat ?c]" by simp
  from soft_kill_loop_indices[OF loop iset] have "?al ! i \<in> set ?al" by simp
  then have s: "?al ! i < length ?ms" by (simp add: ranked_active_set)
  from lookup_id_Some[OF lk] have t: "t < length ?ms" and idt: "el_id (?ms ! t) = k" by simp_all
  have mir': "mirror_id (?msc ! (?al ! i)) = Some k"
    using energy_variant_fields(2)[OF ev s] mir by simp
  have lk': "lookup_id k ?msc = Some t"
    using lookup_id_cong[OF energy_variant_ids[OF ev], of k] lk by simp
  have act': "active (?msc ! t)" using energy_variant_fields(3)[OF ev t] act by simp
  have idt': "el_id (?msc ! t) = k" using energy_variant_fields(1)[OF ev t] idt by simp
  have a: "\<not> active (ms_e ! (?al ! i))"
    using soft_kill_loop_target[OF loop iset] s len by simp
  have b: "\<not> active (ms_e ! t)"
    using soft_kill_loop_twin[OF loop iset _ mir' k lk'] s len by simp
  from soft_kill_loop_rel[OF loop] t len act' b
  have "\<exists>e m. map_of (element_map (ss opt)) (el_id (?msc ! t)) = Some e \<and>
              map_of em (el_id (?msc ! t)) = Some ((attenuate ^^ Suc m) e)"
    unfolding kill_rel_def by simp
  with a b idt' show ?thesis by (simp add: opt')
qed

text \<open>The theorem at the cells of span 32: member 2 is selected, its mirror 10 goes with it.\<close>

theorem selected_mirror_killed_witness:
  "\<not> active (elements_metadata (snd (snd (projr
        (run_iteration (\<lambda>s. Inr cells_results) (optimizer_of cells) 1 (2 / 100))))) ! 1) \<and>
   \<not> active (elements_metadata (snd (snd (projr
        (run_iteration (\<lambda>s. Inr cells_results) (optimizer_of cells) 1 (2 / 100))))) ! 9) \<and>
   (\<exists>e m. map_of (element_map (ss (optimizer_of cells))) 10 = Some e \<and>
          map_of (element_map (ss (snd (snd (projr
            (run_iteration (\<lambda>s. Inr cells_results) (optimizer_of cells) 1 (2 / 100))))))) 10
            = Some ((attenuate ^^ Suc m) e))"
proof -
  let ?X = "projr (run_iteration (\<lambda>s. Inr cells_results) (optimizer_of cells) 1 (2 / 100))"
  have run: "run_iteration (\<lambda>s. Inr cells_results) (optimizer_of cells) 1 (2 / 100)
               = Inr (fst ?X, fst (snd ?X), snd (snd ?X))"
    using cells_run_Inr by simp
  have i: "0 < nat (removal_count (length (active_list (elements_metadata (optimizer_of cells)))) (2 / 100))"
    by code_simp
  have r: "ranked_active cells_results (elements_metadata (optimizer_of cells)) ! 0 = 1"
    by code_simp
  have mir: "mirror_id (elements_metadata (optimizer_of cells) !
               (ranked_active cells_results (elements_metadata (optimizer_of cells)) ! 0)) = Some 10"
    by code_simp
  have lk: "lookup_id 10 (elements_metadata (optimizer_of cells)) = Some 9" by code_simp
  have act: "active (elements_metadata (optimizer_of cells) ! 9)" by code_simp
  from selected_mirror_killed[OF run refl i mir _ lk act] r show ?thesis by simp
qed

text \<open>
  C2 as stated fails: in the same call member 1, whose mirror is member 10 as well, stays
  active while its active mirror is removed.
\<close>

theorem mirror_removed_alone:
  "mirror_id (cells ! 0) = Some 10 \<and> lookup_id 10 cells = Some 9 \<and>
   active (cells ! 0) \<and> active (cells ! 9) \<and>
   \<not> active (elements_metadata (snd (snd (projr
        (run_iteration (\<lambda>s. Inr cells_results) (optimizer_of cells) 1 (2 / 100))))) ! 9) \<and>
   active (elements_metadata (snd (snd (projr
        (run_iteration (\<lambda>s. Inr cells_results) (optimizer_of cells) 1 (2 / 100))))) ! 0)"
  by code_simp


subsection \<open>C4: how many members are selected, and which\<close>








subsection \<open>C9: what a removal changes\<close>

text \<open>
  C9, at a state where the code departs from it. There are 100 active members; member 1
  has the mirror 2, and the solver reports no force in either, so that after step C they
  are the two weakest. With the ratio 0.02 two members are selected: member 1, whose
  mirror 2 is soft-killed with it, and then member 2 itself, which is soft-killed again.
  The stiffness of element 2 ends at a millionth of a millionth of its value, that of
  element 1 at a millionth. (The lemma \<open>run_iteration_frame\<close> above is the part of the claim
  that holds: no member is deleted or re-created, no key leaves the element map, and only
  \<open>active\<close>, \<open>strain_energy\<close> and \<open>force_val\<close> of a member are written.)
\<close>

theorem mirror_attenuated_twice:
  "length (filter active (pair_and_centre 98)) = 100 \<and>
   removal_count 100 (2 / 100) = 2 \<and>
   take 2 (ranked_active pair_results (pair_and_centre 98)) = [0, 1] \<and>
   take 2 (map el_id (pair_and_centre 98)) = [1, 2] \<and>
   take 3 (element_map (ss (optimizer_of (pair_and_centre 98))))
     = [(1, \<lparr>EA = 1, EI = 1\<rparr>), (2, \<lparr>EA = 1, EI = 1\<rparr>), (3, \<lparr>EA = 1, EI = 1\<rparr>)] \<and>
   take 3 (element_map (ss (snd (snd (projr (run_iteration (\<lambda>s. Inr pair_results)
      (optimizer_of (pair_and_centre 98)) 1 (2 / 100)))))))
     = [(1, \<lparr>EA = 1 / 10 ^ 6, EI = 1 / 10 ^ 6\<rparr>), (2, \<lparr>EA = 1 / 10 ^ 12, EI = 1 / 10 ^ 12\<rparr>),
        (3, \<lparr>EA = 1, EI = 1\<rparr>)]"
  by code_simp


section \<open>Claims on initialize\_structure\<close>

subsection \<open>C1: a degenerate section\<close>




subsection \<open>C6: the mirror that step 4 assigns\<close>

text \<open>
  C6. Let the members have distinct ids (step 3 numbers them 1, 2, ...: lemma
  \<open>initialize_structure_ids\<close>). A member whose midpoint is at or right of the centre line
  \<open>span / 2\<close> gets no mirror. For every member to which step 4 assigns a \<open>mirror_id\<close>,
  the member found under that id has its midpoint within 0.1 of the reflection
  \<open>(span - mid_x, mid_y)\<close> of the member's midpoint; it is another member with another id;
  the member itself lies strictly left of the centre line, its mirror strictly right
  of it.
\<close>

theorem mirror_assignment:
  assumes "distinct (map el_id ms)" and "i < length ms"
  shows "(span' / 2 \<le> mid_x (map_symmetry span' ms ! i) \<longrightarrow>
            mirror_id (map_symmetry span' ms ! i) = None) \<and>
         (\<forall>k. mirror_id (map_symmetry span' ms ! i) = Some k \<longrightarrow>
            (\<exists>t. lookup_id k (map_symmetry span' ms) = Some t \<and>
                 hypot (mid_x (map_symmetry span' ms ! t) - (span' - mid_x (map_symmetry span' ms ! i)))
                       (mid_y (map_symmetry span' ms ! t) - mid_y (map_symmetry span' ms ! i)) < 1 / 10 \<and>
                 t \<noteq> i \<and> k \<noteq> el_id (map_symmetry span' ms ! i) \<and>
                 mid_x (map_symmetry span' ms ! i) < span' / 2 \<and>
                 span' / 2 < mid_x (map_symmetry span' ms ! t)))"
proof (intro conjI allI impI)
  assume "span' / 2 \<le> mid_x (map_symmetry span' ms ! i)"
  then have "\<not> mid_x (ms ! i) < span' / 2"
    using map_symmetry_nth_fields(2)[OF assms(2), of span'] by simp
  then show "mirror_id (map_symmetry span' ms ! i) = None"
    unfolding map_symmetry_nth[OF assms(2)] by (simp only: if_False) simp
next
  fix k
  assume mir: "mirror_id (map_symmetry span' ms ! i) = Some k"
  from map_symmetry_mirror[OF assms mir] obtain t where
    "lookup_id k (map_symmetry span' ms) = Some t" "t < length ms" "t \<noteq> i"
    "k \<noteq> el_id (ms ! i)" "mid_x (ms ! i) < span' / 2" "span' / 2 < mid_x (ms ! t)"
    "hypot (mid_x (ms ! t) - (span' - mid_x (ms ! i))) (mid_y (ms ! t) - mid_y (ms ! i)) < 1 / 10"
    by blast
  then show "\<exists>t. lookup_id k (map_symmetry span' ms) = Some t \<and>
       hypot (mid_x (map_symmetry span' ms ! t) - (span' - mid_x (map_symmetry span' ms ! i)))
             (mid_y (map_symmetry span' ms ! t) - mid_y (map_symmetry span' ms ! i)) < 1 / 10 \<and>
       t \<noteq> i \<and> k \<noteq> el_id (map_symmetry span' ms ! i) \<and>
       mid_x (map_symmetry span' ms ! i) < span' / 2 \<and>
       span' / 2 < mid_x (map_symmetry span' ms ! t)"
    using map_symmetry_nth_fields[OF assms(2), of span'] map_symmetry_nth_fields[of t ms span']
    by (intro exI[of _ t]) simp
qed

text \<open>The theorem at two members of the cells of span 32: the first diagonal of the left
  cell, with the mirror 10, and the first diagonal of the right cell, with no mirror.\<close>

theorem mirror_assignment_witness:
  "mirror_id (map_symmetry 32 cells_raw ! 0) = Some 10 \<and>
   (\<exists>t. lookup_id 10 (map_symmetry 32 cells_raw) = Some t \<and>
       hypot (mid_x (map_symmetry 32 cells_raw ! t) - (32 - mid_x (map_symmetry 32 cells_raw ! 0)))
             (mid_y (map_symmetry 32 cells_raw ! t) - mid_y (map_symmetry 32 cells_raw ! 0)) < 1 / 10 \<and>
       t \<noteq> 0 \<and> 10 \<noteq> el_id (map_symmetry 32 cells_raw ! 0) \<and>
       mid_x (map_symmetry 32 cells_raw ! 0) < 32 / 2 \<and>
       32 / 2 < mid_x (map_symmetry 32 cells_raw ! t)) \<and>
   32 / 2 \<le> mid_x (map_symmetry 32 cells_raw ! 9) \<and>
   mirror_id (map_symmetry 32 cells_raw ! 9) = None"
proof -
  have d: "distinct (map el_id cells_raw)" by code_simp
  have l0: "0 < length cells_raw" by code_simp
  have l9: "9 < length cells_raw" by code_simp
  have m: "mirror_id (map_symmetry 32 cells_raw ! 0) = Some 10"
    unfolding map_symmetry_nth[OF l0]
    by (simp add: cells_raw_def new_member_def find_twin_Cons_sq del: find_twin.simps)
  have r: "32 / 2 \<le> mid_x (map_symmetry 32 cells_raw ! 9)"
    unfolding map_symmetry_nth[OF l9] by (simp add: cells_raw_def new_member_def)
  from mirror_assignment[OF d l0, of 32] mirror_assignment[OF d l9, of 32] m r
  show ?thesis by blast
qed


subsection \<open>C8: the members of the ground structure\<close>




subsection \<open>C10: a support selector that is none of the three\<close>





section \<open>Claims on the driver\<close>

subsection \<open>C3: when the loop converges\<close>

text \<open>What one call of \<open>run_loop\<close> does with the count that \<open>run_iteration\<close> returns.\<close>

lemma run_loop_step:
  assumes "is_running a"
    and "run_iteration solver (app_optimizer a) (iteration a + 1) (2 / 100) = Inr (disp, cnt, opt')"
  shows "is_running (run_loop solver a) = (25 \<le> cnt)"
    and "lbl_status (run_loop solver a) = (if cnt < 25 then Converged else Iterating (iteration a + 1) cnt)"
    and "iteration (run_loop solver a) = iteration a + 1"
    and "app_optimizer (run_loop solver a) = opt'"
  using assms by (auto simp: run_loop_def Let_def)

lemma run_loop_failed:
  assumes "is_running a"
    and "run_iteration solver (app_optimizer a) (iteration a + 1) (2 / 100) = Inl e"
  shows "\<not> is_running (run_loop solver a)" and "lbl_status (run_loop solver a) = Failed e"
  using assms by (auto simp: run_loop_def Let_def)

lemma run_loop_idle: "\<not> is_running a \<Longrightarrow> run_loop solver a = a"
  by (simp add: run_loop_def)

text \<open>
  C3, at a state where the code departs from it. There are 26 active members; member 1 is
  the weakest and has the active mirror 2. The first call of \<open>run_loop\<close> removes both, so
  that 24 members are active, below the floor of 25; the count that \<open>run_iteration\<close>
  returns is 26 less the one selected member, 25, and the loop goes on. The second call
  removes one more member and only then converges, with 23 active members.
\<close>

theorem converges_late:
  "length (filter active (pair_and_centre 24)) = 26 \<and>
   is_running (run_loop (\<lambda>s. Inr pair_results) (app_of (pair_and_centre 24))) \<and>
   lbl_status (run_loop (\<lambda>s. Inr pair_results) (app_of (pair_and_centre 24))) = Iterating 1 25 \<and>
   length (filter active (elements_metadata (app_optimizer
      (run_loop (\<lambda>s. Inr pair_results) (app_of (pair_and_centre 24)))))) = 24 \<and>
   lbl_status (run_loop (\<lambda>s. Inr pair_results)
      (run_loop (\<lambda>s. Inr pair_results) (app_of (pair_and_centre 24)))) = Converged \<and>
   length (filter active (elements_metadata (app_optimizer
      (run_loop (\<lambda>s. Inr pair_results)
        (run_loop (\<lambda>s. Inr pair_results) (app_of (pair_and_centre 24))))))) = 23"
  by code_simp

end
